theory Spec2Isabelle
  imports Main "HOL-Library.Word" "HOL-Library.Signed_Division"
begin

section \<open>Data model of \<open>HTTPServer\<close>\<close>

text \<open>
  The server core of \<^verbatim>\<open>HTTPServer.cpp\<close>: listener socket, slot array, admission gate and
  default headers.  Machine integers that are compared or whose wrap-around matters are
  \<open>32 word\<close> (\<open>int\<close>, \<open>uint32_t\<close> and \<open>long\<close> are 32 bits wide on the ESP32, the only target of
  the repository); descriptors and result codes, which are only compared, are \<open>int\<close>.
\<close>

type_synonym HTTPHeaders = "(string \<times> string) list"

datatype address_family = AF_INET

record sockaddr_in =
  sin_family :: address_family
  sin_addr :: "32 word"
  sin_port :: "16 word"

text \<open>
  \<open>connections\<close> is the array \<^verbatim>\<open>_connections\<close> together with its length
  \<^verbatim>\<open>_maxConnections\<close> (the constructor allocates exactly that many cells and neither is
  ever changed), \<open>None\<close> being the \<^verbatim>\<open>NULL\<close> pointer.  \<open>pendingQueue\<close> is the FreeRTOS queue
  of capacity 1 created by \<^verbatim>\<open>xQueueCreate(1, sizeof(int))\<close>.  The member object
  \<^verbatim>\<open>_defaultHeaders\<close> lives in \<open>headers_store\<close> at the address \<open>defaultHeaders\<close>, because
  \<^verbatim>\<open>createConnection\<close> hands out its address.
\<close>

record 'c HTTPServer =
  port :: "16 word"
  bindAddress :: "32 word"
  connections :: "'c option list"
  socket :: int
  sock_addr :: "sockaddr_in option"
  pendingQueue :: "int list"
  pendingConnection :: bool
  running :: bool
  defaultHeaders :: nat
  headers_store :: "nat \<Rightarrow> HTTPHeaders"

definition maxConnections :: "'c HTTPServer \<Rightarrow> nat" where
  "maxConnections s = length (connections s)"

text \<open>
  The constructor.  \<open>this_headers\<close> is the address of the member \<^verbatim>\<open>_defaultHeaders\<close> of the
  object under construction, \<open>mem\<close> the memory before.
\<close>

definition HTTPServer_new ::
  "16 word \<Rightarrow> 8 word \<Rightarrow> 32 word \<Rightarrow> nat \<Rightarrow> (nat \<Rightarrow> HTTPHeaders) \<Rightarrow> 'c HTTPServer" where
  "HTTPServer_new p maxConns bindAddr this_headers mem =
     \<lparr> port = p, bindAddress = bindAddr,
       connections = replicate (unat maxConns) None,
       socket = - 1, sock_addr = None,
       pendingQueue = [], pendingConnection = False, running = False,
       defaultHeaders = this_headers,
       headers_store = mem(this_headers := []) \<rparr>"

subsection \<open>The FreeRTOS queue of capacity 1\<close>

text \<open>\<^verbatim>\<open>xQueueSend(q, &item, 0)\<close>: with a zero wait a full queue drops the item.\<close>

definition xQueueSend :: "int list \<Rightarrow> int \<Rightarrow> int list" where
  "xQueueSend q item = (if length q < 1 then q @ [item] else q)"

text \<open>\<^verbatim>\<open>xQueueReceive(q, &dummy, 0)\<close>: with a zero wait an empty queue is left as it is.\<close>

definition xQueueReceive :: "int list \<Rightarrow> int list" where
  "xQueueReceive q = (case q of [] \<Rightarrow> [] | _ # rest \<Rightarrow> rest)"

subsection \<open>Listener socket\<close>

text \<open>
  What the operating system answers to the three calls of \<^verbatim>\<open>setupSocket\<close>:
  \<^verbatim>\<open>socket()\<close> returns a descriptor or a negative value, \<^verbatim>\<open>bind\<close> and \<^verbatim>\<open>listen\<close> return
  0 on success.
\<close>

record socket_env =
  socket_result :: int
  bind_result :: int
  listen_result :: int

text \<open>\<^verbatim>\<open>htons\<close> on the little-endian ESP32 swaps the two bytes.\<close>

definition htons :: "16 word \<Rightarrow> 16 word" where
  "htons p = or (push_bit 8 p) (drop_bit 8 p)"

definition setupSocket :: "socket_env \<Rightarrow> 'c HTTPServer \<Rightarrow> 8 word \<times> 'c HTTPServer" where
  "setupSocket env s =
     (let s1 = s\<lparr>socket := socket_result env\<rparr> in
      if socket s1 \<ge> 0 then
        let s2 = s1\<lparr>sock_addr := Some \<lparr> sin_family = AF_INET,
                                        sin_addr = bindAddress s1,
                                        sin_port = htons (port s1) \<rparr>\<rparr>;
            err = bind_result env
        in if err = 0 then
             let err' = listen_result env
             in if err' = 0 then (1, s2)
                else (0, s2\<lparr>socket := - 1\<rparr>)
           else (0, s2\<lparr>socket := - 1\<rparr>)
      else (0, s1\<lparr>socket := - 1\<rparr>))"

definition teardownSocket :: "'c HTTPServer \<Rightarrow> 'c HTTPServer" where
  "teardownSocket s = s\<lparr>socket := - 1\<rparr>"

definition start :: "socket_env \<Rightarrow> 'c HTTPServer \<Rightarrow> 8 word \<times> 'c HTTPServer" where
  "start env s =
     (if \<not> running s then
        (case setupSocket env s of
           (ok, s') \<Rightarrow> if ok \<noteq> 0 then (1, s'\<lparr>running := True\<rparr>) else (0, s'))
      else (1, s))"

definition isRunning :: "'c HTTPServer \<Rightarrow> bool" where
  "isRunning s = running s"

subsection \<open>Default headers\<close>

text \<open>
  Modelled from the spec: \<^verbatim>\<open>HTTPHeaders::set\<close> (the class \<^verbatim>\<open>HTTPHeaders\<close> is not part of
  the sources at hand).  The default headers are an ordered mapping from names to values
  that is ``never removed, only appended/overwritten by name'': an entry of the same name
  is dropped and the new entry is appended.
\<close>

definition HTTPHeaders_set :: "string \<times> string \<Rightarrow> HTTPHeaders \<Rightarrow> HTTPHeaders" where
  "HTTPHeaders_set h hs = filter (\<lambda>e. fst e \<noteq> fst h) hs @ [h]"

definition setDefaultHeader :: "string \<Rightarrow> string \<Rightarrow> 'c HTTPServer \<Rightarrow> 'c HTTPServer" where
  "setDefaultHeader name val s =
     s\<lparr>headers_store := (headers_store s)
          (defaultHeaders s := HTTPHeaders_set (name, val) (headers_store s (defaultHeaders s)))\<rparr>"

subsection \<open>The connection interface\<close>

text \<open>
  The class \<^verbatim>\<open>HTTPConnection\<close> is an external collaborator of the server: the server only
  calls the operations below, so the connection type \<open>'c\<close> and the operations are
  parameters.  \<open>acceptConnection r\<close> is the connection after \<^verbatim>\<open>acceptConnection()\<close> has
  returned the result code \<open>r\<close>, \<open>attachTask ok\<close> the connection after
  \<^verbatim>\<open>startConnectionTask\<close> has written its \<^verbatim>\<open>_pendingQueue\<close> and \<^verbatim>\<open>_taskHandle\<close> members
  (\<open>ok\<close>: \<^verbatim>\<open>xTaskCreate\<close> returned \<^verbatim>\<open>pdTRUE\<close>), \<open>conn_socket\<close> reads the member \<^verbatim>\<open>_socket\<close>
  and \<open>conn_loop\<close> is one call of \<^verbatim>\<open>HTTPConnection::loop()\<close>.
\<close>

record 'c HTTPConnection_ops =
  new_HTTPConnection :: "'c"
  initialize :: "int \<Rightarrow> nat \<Rightarrow> 'c \<Rightarrow> 'c"
  acceptConnection :: "int \<Rightarrow> 'c \<Rightarrow> 'c"
  attachTask :: "bool \<Rightarrow> 'c \<Rightarrow> 'c"
  conn_loop :: "'c \<Rightarrow> 'c"
  conn_socket :: "'c \<Rightarrow> int"
  isTerminated :: "'c \<Rightarrow> bool"
  closeConnection :: "'c \<Rightarrow> 'c"
  isClosed :: "'c \<Rightarrow> bool"

text \<open>
  What the environment answers during one admission: the result code of
  \<^verbatim>\<open>acceptConnection()\<close> (cooperative build) and whether \<^verbatim>\<open>xTaskCreate\<close> succeeded (build
  with \<^verbatim>\<open>HTTPS_TASK_PER_CONNECTION\<close>).
\<close>

record admit_env =
  accept_result :: int
  task_created :: bool

subsection \<open>Admission: \<open>startConnection\<close>\<close>

definition startConnectionTask :: "'c HTTPConnection_ops \<Rightarrow> admit_env \<Rightarrow> 'c \<Rightarrow> int \<times> 'c" where
  "startConnectionTask ops aenv connection =
     (let connection' = attachTask ops (task_created aenv) connection in
      if \<not> task_created aenv then (- 1, connection') else (1, connection'))"

text \<open>
  \<open>tpc\<close> says whether the build defines \<^verbatim>\<open>HTTPS_TASK_PER_CONNECTION\<close>.  The slot holds a
  pointer to the new object, so it shows every later change of the object.
\<close>

definition createConnection ::
  "bool \<Rightarrow> 'c HTTPConnection_ops \<Rightarrow> admit_env \<Rightarrow> int \<Rightarrow> 'c HTTPServer \<Rightarrow> int \<times> 'c HTTPServer" where
  "createConnection tpc ops aenv idx s =
     (let newConnection = initialize ops (socket s) (defaultHeaders s) (new_HTTPConnection ops) in
      if tpc then
        (case startConnectionTask ops aenv newConnection of
           (r, c) \<Rightarrow> (r, s\<lparr>connections := (connections s)[nat idx := Some c]\<rparr>))
      else
        (accept_result aenv,
         s\<lparr>connections :=
             (connections s)[nat idx := Some (acceptConnection ops (accept_result aenv) newConnection)]\<rparr>))"

definition startConnection ::
  "bool \<Rightarrow> 'c HTTPConnection_ops \<Rightarrow> admit_env \<Rightarrow> int \<Rightarrow> 'c HTTPServer \<Rightarrow> int \<times> 'c HTTPServer" where
  "startConnection tpc ops aenv idx s =
     (let s1 = s\<lparr>pendingConnection := False, pendingQueue := xQueueReceive (pendingQueue s)\<rparr> in
      case createConnection tpc ops aenv idx s1 of
        (socketIdentifier, s2) \<Rightarrow>
          if socketIdentifier < 0
          then (socketIdentifier, s2\<lparr>connections := (connections s2)[nat idx := None]\<rparr>)
          else (socketIdentifier, s2))"

subsection \<open>The driver: \<open>loop\<close>\<close>

text \<open>State of the first \<^verbatim>\<open>for\<close> loop of \<^verbatim>\<open>loop\<close> (step 1).\<close>

record 'c scan =
  sc_connections :: "'c option list"
  sc_free :: int
  sc_max_fd :: int
  sc_except_fds :: "int set"

definition processSlot :: "bool \<Rightarrow> 'c HTTPConnection_ops \<Rightarrow> nat \<Rightarrow> 'c scan \<Rightarrow> 'c scan" where
  "processSlot tpc ops i st =
     (case sc_connections st ! i of
        None \<Rightarrow> st\<lparr>sc_free := int i\<rparr>
      | Some c \<Rightarrow>
          if isTerminated ops c
          then st\<lparr>sc_connections := (sc_connections st)[i := None], sc_free := int i\<rparr>
          else
            let fd = conn_socket ops c in
            st\<lparr>sc_connections :=
                  (if tpc then sc_connections st
                   else (sc_connections st)[i := Some (conn_loop ops c)]),
               sc_max_fd := (if fd > sc_max_fd st then fd else sc_max_fd st),
               sc_except_fds := insert fd (sc_except_fds st)\<rparr>)"

definition processConnections ::
  "bool \<Rightarrow> 'c HTTPConnection_ops \<Rightarrow> 'c option list \<Rightarrow> 'c scan" where
  "processConnections tpc ops conns =
     fold (processSlot tpc ops) [0..<length conns]
       \<lparr>sc_connections = conns, sc_free = - 1, sc_max_fd = - 1, sc_except_fds = {}\<rparr>"

text \<open>The second scan of \<^verbatim>\<open>loop\<close>, after the pending connection was admitted.\<close>

definition findFree :: "'c option list \<Rightarrow> int" where
  "findFree conns =
     fold (\<lambda>i freeConnectionIdx. if conns ! i = None then int i else freeConnectionIdx)
       [0..<length conns] (- 1)"

record timeval =
  tv_sec :: "32 word"
  tv_usec :: "32 word"

text \<open>
  \<^verbatim>\<open>timeoutMs / 1000\<close> is C's division, which truncates towards zero; the product is
  stored in the 32 bits of \<^verbatim>\<open>tv_usec\<close>.  Both fields are read as signed values
  (\<open>sint\<close>).
\<close>

definition mk_timeout :: "32 word \<Rightarrow> timeval" where
  "mk_timeout timeoutMs =
     (let sec = (word_of_int (sint timeoutMs sdiv 1000) :: 32 word) in
      \<lparr>tv_sec = sec, tv_usec = (timeoutMs - sec) * 1000\<rparr>)"

text \<open>
  What happens during one call of \<^verbatim>\<open>loop\<close>, in order: every call of \<^verbatim>\<open>startConnection\<close>
  with its index and the slot array at the moment of the call, the call of \<^verbatim>\<open>select\<close>
  with its arguments, and the raising of the admission gate.
\<close>

datatype 'c event =
  StartConnection int "'c option list"
  | Select int "int set" "int set" timeval
  | PendingRaised

text \<open>
  What the environment answers during one call of \<^verbatim>\<open>loop\<close>: the two readings of
  \<^verbatim>\<open>millis()\<close>, the outcome of the admission of step 2 and of the admission after the
  poll, and the result of \<^verbatim>\<open>select\<close>: its return value and the descriptors it reports as
  readable (it leaves in \<^verbatim>\<open>read_fds\<close> those of them that were in the set).
\<close>

record loop_env =
  millis_start :: "32 word"
  millis_end :: "32 word"
  admit_pending :: admit_env
  admit_new :: admit_env
  select_nfds :: int
  select_readable :: "int set"

record 'c loop_result =
  returned :: "32 word"
  server :: "'c HTTPServer"
  events :: "'c event list"

text \<open>Step 2: the pending connection is admitted when a slot is free.\<close>

definition admitPending ::
  "bool \<Rightarrow> 'c HTTPConnection_ops \<Rightarrow> admit_env \<Rightarrow> int \<Rightarrow> 'c HTTPServer
     \<Rightarrow> 'c HTTPServer \<times> int \<times> 'c event list" where
  "admitPending tpc ops aenv freeConnectionIdx s =
     (if pendingConnection s \<and> freeConnectionIdx > - 1 then
        let s' = snd (startConnection tpc ops aenv freeConnectionIdx s) in
        (s', findFree (connections s'), [StartConnection freeConnectionIdx (connections s)])
      else (s, freeConnectionIdx, []))"

text \<open>After the poll: a readable listener is admitted or raises the gate.\<close>

definition handleListener ::
  "bool \<Rightarrow> 'c HTTPConnection_ops \<Rightarrow> admit_env \<Rightarrow> int \<Rightarrow> int set \<Rightarrow> int \<Rightarrow> 'c HTTPServer
     \<Rightarrow> 'c HTTPServer \<times> 'c event list" where
  "handleListener tpc ops aenv nfds read_fds freeConnectionIdx s =
     (if nfds > 0 \<and> socket s \<in> read_fds then
        if freeConnectionIdx > - 1 then
          (snd (startConnection tpc ops aenv freeConnectionIdx s),
           [StartConnection freeConnectionIdx (connections s)])
        else if \<not> pendingConnection s then
          (s\<lparr>pendingConnection := True,
             pendingQueue := xQueueSend (pendingQueue s) (socket s)\<rparr>, [PendingRaised])
        else (s, [])
      else (s, []))"

definition loop ::
  "bool \<Rightarrow> 'c HTTPConnection_ops \<Rightarrow> loop_env \<Rightarrow> 32 word \<Rightarrow> 'c HTTPServer \<Rightarrow> 'c loop_result" where
  "loop tpc ops env timeoutMs s =
     (if \<not> running s then \<lparr>returned = 0, server = s, events = []\<rparr>
      else
        let startMs = millis_start env;
            st = processConnections tpc ops (connections s);
            s1 = s\<lparr>connections := sc_connections st\<rparr>;
            (s2, freeConnectionIdx, ev2) = admitPending tpc ops (admit_pending env) (sc_free st) s1;
            read_fds = (if \<not> pendingConnection s2 then {socket s2} else {});
            max_fd = (if \<not> pendingConnection s2 \<and> socket s2 > sc_max_fd st
                      then socket s2 else sc_max_fd st);
            timeout = mk_timeout timeoutMs;
            nfds = select_nfds env;
            read_fds' = read_fds \<inter> select_readable env;
            (s3, ev3) = handleListener tpc ops (admit_new env) nfds read_fds' freeConnectionIdx s2;
            deltaMs = startMs + timeoutMs - millis_end env
        in \<lparr>returned = (if deltaMs > 0x7FFFFFFF then 0 else deltaMs),
            server = s3,
            events = ev2 @ [Select (max_fd + 1) read_fds (sc_except_fds st) timeout] @ ev3\<rparr>)"

subsection \<open>Shutdown: \<open>stop\<close>\<close>

text \<open>One iteration of the \<^verbatim>\<open>for\<close> loop of \<^verbatim>\<open>stop\<close>, on the slot \<open>i\<close>.\<close>

definition closeSlot ::
  "'c HTTPConnection_ops \<Rightarrow> nat \<Rightarrow> 'c option list \<times> bool \<Rightarrow> 'c option list \<times> bool" where
  "closeSlot ops i st =
     (case st of (conns, hasOpenConnections) \<Rightarrow>
        (case conns ! i of
           None \<Rightarrow> (conns, hasOpenConnections)
         | Some c \<Rightarrow>
             let c' = closeConnection ops c in
             if isClosed ops c' then (conns[i := None], hasOpenConnections)
             else (conns[i := Some c'], True)))"

definition stopSweep :: "'c HTTPConnection_ops \<Rightarrow> 'c option list \<Rightarrow> 'c option list \<times> bool" where
  "stopSweep ops conns = fold (closeSlot ops) [0..<length conns] (conns, False)"

text \<open>
  The \<^verbatim>\<open>while\<close> loop of \<^verbatim>\<open>stop\<close> may run forever: the result \<open>None\<close> stands for a call
  that does not return.
\<close>

partial_function (option) stopLoop ::
  "'c HTTPConnection_ops \<Rightarrow> 'c option list \<Rightarrow> 'c option list option" where
  "stopLoop ops conns =
     (case stopSweep ops conns of
        (conns', hasOpenConnections) \<Rightarrow>
          if hasOpenConnections then stopLoop ops conns' else Some conns')"

definition stop :: "'c HTTPConnection_ops \<Rightarrow> 'c HTTPServer \<Rightarrow> 'c HTTPServer option" where
  "stop ops s =
     (if running s then
        (case stopLoop ops (connections (s\<lparr>running := False\<rparr>)) of
           None \<Rightarrow> None
         | Some conns \<Rightarrow> Some (teardownSocket (s\<lparr>running := False, connections := conns\<rparr>)))
      else Some s)"

section \<open>Notions used to state the properties\<close>

text \<open>What step 1 of \<^verbatim>\<open>loop\<close> does to one slot, and what a sweep of \<^verbatim>\<open>stop\<close> does to it.\<close>

definition reclaimSlot :: "bool \<Rightarrow> 'c HTTPConnection_ops \<Rightarrow> 'c option \<Rightarrow> 'c option" where
  "reclaimSlot tpc ops slot =
     (case slot of
        None \<Rightarrow> None
      | Some c \<Rightarrow> if isTerminated ops c then None
                  else Some (if tpc then c else conn_loop ops c))"

definition closeStep :: "'c HTTPConnection_ops \<Rightarrow> 'c option \<Rightarrow> 'c option" where
  "closeStep ops slot =
     (case slot of
        None \<Rightarrow> None
      | Some c \<Rightarrow> if isClosed ops (closeConnection ops c) then None
                  else Some (closeConnection ops c))"

text \<open>
  \<open>idx\<close> is the highest (lowest) index of an empty slot; no slot is empty; every slot is
  empty.
\<close>

definition highest_free_slot :: "'c option list \<Rightarrow> int \<Rightarrow> bool" where
  "highest_free_slot conns idx \<longleftrightarrow>
     0 \<le> idx \<and> nat idx < length conns \<and> conns ! nat idx = None
     \<and> (\<forall>j \<in> set [Suc (nat idx)..<length conns]. conns ! j \<noteq> None)"


definition no_free_slot :: "'c option list \<Rightarrow> bool" where
  "no_free_slot conns \<longleftrightarrow> (\<forall>slot \<in> set conns. slot \<noteq> None)"

definition all_empty :: "'c option list \<Rightarrow> bool" where
  "all_empty conns \<longleftrightarrow> (\<forall>slot \<in> set conns. slot = None)"

text \<open>What a scan for a free slot has to return: \<open>-1\<close> for ``none'', else the highest free index.\<close>

definition scan_result :: "'c option list \<Rightarrow> int \<Rightarrow> bool" where
  "scan_result conns idx \<longleftrightarrow>
     (if no_free_slot conns then idx = - 1 else highest_free_slot conns idx)"

text \<open>
  A connection reports \<^verbatim>\<open>isClosed()\<close> after some number of \<^verbatim>\<open>closeConnection()\<close>
  requests.
\<close>

definition eventually_closed :: "'c HTTPConnection_ops \<Rightarrow> 'c \<Rightarrow> bool" where
  "eventually_closed ops c \<longleftrightarrow> (\<exists>k\<ge>1. isClosed ops ((closeConnection ops ^^ k) c))"

text \<open>The number of calls of \<^verbatim>\<open>startConnection\<close> among the events of a call.\<close>

fun admitted :: "'c event list \<Rightarrow> nat" where
  "admitted [] = 0"
| "admitted (StartConnection idx before # evs) = Suc (admitted evs)"
| "admitted (Select nfds rfds efds tv # evs) = admitted evs"
| "admitted (PendingRaised # evs) = admitted evs"

text \<open>
  The admission gate replayed along the events: an admission clears it, raising it is
  only allowed while it is down (\<open>None\<close> otherwise).
\<close>

fun gate_replay :: "bool \<Rightarrow> 'c event list \<Rightarrow> bool option" where
  "gate_replay g [] = Some g"
| "gate_replay g (StartConnection idx before # evs) = gate_replay False evs"
| "gate_replay g (PendingRaised # evs) = (if g then None else gate_replay True evs)"
| "gate_replay g (Select nfds rfds efds tv # evs) = gate_replay g evs"

text \<open>The timeouts handed to \<^verbatim>\<open>select\<close>, and a timeout in microseconds.\<close>

fun select_timeouts :: "'c event list \<Rightarrow> timeval list" where
  "select_timeouts [] = []"
| "select_timeouts (Select nfds rfds efds tv # evs) = tv # select_timeouts evs"
| "select_timeouts (StartConnection idx before # evs) = select_timeouts evs"
| "select_timeouts (PendingRaised # evs) = select_timeouts evs"

definition timeout_us :: "timeval \<Rightarrow> int" where
  "timeout_us tv = sint (tv_sec tv) * 1000000 + sint (tv_usec tv)"

subsection \<open>A connection to run the server with\<close>

text \<open>
  A sample implementation of the connection interface, the concrete input of the runs
  below; the theorems hold for every implementation.  The connection keeps what
  \<^verbatim>\<open>initialize\<close> received (the listener descriptor and the address of the default
  headers) and the descriptor that \<^verbatim>\<open>acceptConnection\<close> returned; it reports
  \<^verbatim>\<open>isTerminated()\<close> once \<open>c_steps_left\<close> calls of \<^verbatim>\<open>loop()\<close> have been made and
  \<^verbatim>\<open>isClosed()\<close> once \<open>c_closes_left\<close> calls of \<^verbatim>\<open>closeConnection()\<close> have been made.
\<close>

record conn =
  c_socket :: int
  c_serverSocket :: int
  c_defaultHeaders :: nat
  c_task :: bool
  c_steps_left :: nat
  c_closes_left :: nat

definition fresh_conn :: conn where
  "fresh_conn = \<lparr>c_socket = - 1, c_serverSocket = - 1, c_defaultHeaders = 0, c_task = False,
                  c_steps_left = 1, c_closes_left = 1\<rparr>"

definition conn_ops :: "conn HTTPConnection_ops" where
  "conn_ops =
     \<lparr> new_HTTPConnection = fresh_conn,
       initialize = (\<lambda>serverSocket hdrs c.
                       c\<lparr>c_serverSocket := serverSocket, c_defaultHeaders := hdrs\<rparr>),
       acceptConnection = (\<lambda>r c. c\<lparr>c_socket := r\<rparr>),
       attachTask = (\<lambda>ok c. c\<lparr>c_task := ok\<rparr>),
       conn_loop = (\<lambda>c. c\<lparr>c_steps_left := c_steps_left c - 1\<rparr>),
       conn_socket = c_socket,
       isTerminated = (\<lambda>c. c_steps_left c = 0),
       closeConnection = (\<lambda>c. c\<lparr>c_closes_left := c_closes_left c - 1\<rparr>),
       isClosed = (\<lambda>c. c_closes_left c = 0) \<rparr>"

text \<open>
  A server that listens on the descriptor 5, with the given slots and gate; its default
  headers are at the address 64.  \<open>slow_conn\<close> is a connection as an admission leaves
  it, which needs two close requests; \<open>terminated_conn\<close> is the same connection once it
  has terminated.
\<close>

definition listening_server :: "conn option list \<Rightarrow> bool \<Rightarrow> conn HTTPServer" where
  "listening_server conns pending =
     \<lparr> port = 443, bindAddress = 0, connections = conns, socket = 5,
       sock_addr = Some \<lparr>sin_family = AF_INET, sin_addr = 0, sin_port = htons 443\<rparr>,
       pendingQueue = (if pending then [5] else []), pendingConnection = pending,
       running = True, defaultHeaders = 64, headers_store = (\<lambda>a. []) \<rparr>"

definition slow_conn :: conn where
  "slow_conn = fresh_conn\<lparr>c_socket := 6, c_serverSocket := 5, c_defaultHeaders := 64,
                           c_closes_left := 2\<rparr>"

definition terminated_conn :: conn where
  "terminated_conn = slow_conn\<lparr>c_steps_left := 0\<rparr>"

text \<open>
  An environment in which the listener is readable when polled, the two admissions
  return the codes \<open>r1\<close> and \<open>r2\<close>, and ten milliseconds pass during the call.
\<close>

definition inbound :: "int \<Rightarrow> int \<Rightarrow> loop_env" where
  "inbound r1 r2 =
     \<lparr> millis_start = 1000, millis_end = 1010,
       admit_pending = \<lparr>accept_result = r1, task_created = True\<rparr>,
       admit_new = \<lparr>accept_result = r2, task_created = True\<rparr>,
       select_nfds = 1, select_readable = {5} \<rparr>"

definition socket_ok :: socket_env where
  "socket_ok = \<lparr>socket_result = 5, bind_result = 0, listen_result = 0\<rparr>"

definition bind_fails :: socket_env where
  "bind_fails = \<lparr>socket_result = 5, bind_result = - 1, listen_result = 0\<rparr>"

text \<open>
  The server after \<^verbatim>\<open>setDefaultHeader("X", "1")\<close> and the admission of a connection
  into its only slot.
\<close>

definition header_example :: "conn HTTPServer" where
  "header_example =
     snd (startConnection False conn_ops \<lparr>accept_result = 7, task_created = False\<rparr> 0
            (setDefaultHeader ''X'' ''1'' (listening_server [None] False)))"

definition stopped_server :: "conn HTTPServer" where
  "stopped_server = HTTPServer_new 443 1 0 64 (\<lambda>a. [])"

lemmas run_defs =
  loop_def Let_def processConnections_def processSlot_def admitPending_def handleListener_def
  listening_server_def inbound_def conn_ops_def fresh_conn_def terminated_conn_def slow_conn_def
  startConnection_def createConnection_def startConnectionTask_def findFree_def
  xQueueReceive_def xQueueSend_def

section \<open>Listener lifecycle: \<open>start\<close>\<close>

lemma setupSocket_frame:
  "pendingConnection (snd (setupSocket env s)) = pendingConnection s
   \<and> pendingQueue (snd (setupSocket env s)) = pendingQueue s
   \<and> connections (snd (setupSocket env s)) = connections s
   \<and> running (snd (setupSocket env s)) = running s"
  by (simp add: setupSocket_def Let_def)

lemma start_frame:
  "pendingConnection (snd (start env s)) = pendingConnection s
   \<and> pendingQueue (snd (start env s)) = pendingQueue s
   \<and> connections (snd (start env s)) = connections s"
  by (simp add: start_def setupSocket_frame split: prod.splits)
    (metis setupSocket_frame snd_conv)

text \<open>
  Claim C6.  \<open>start\<close> on a running server returns 1 and leaves the state as it is.  On a
  stopped server it returns 0 exactly when the socket creation, the bind or the listen
  step fails; after every failure the listener descriptor is \<open>-1\<close> and the server is
  still stopped, so that \<open>start\<close> can be tried again and succeeds once the three steps
  do; after a success the server is running on the new descriptor.
\<close>

theorem start_idempotent_and_failure_unbound:
  "(running s \<longrightarrow> start env s = (1, s))
   \<and> (\<not> running s \<longrightarrow>
        (fst (start env s) = 0 \<longleftrightarrow>
           socket_result env < 0 \<or> bind_result env \<noteq> 0 \<or> listen_result env \<noteq> 0)
        \<and> (fst (start env s) \<noteq> 0 \<longrightarrow> fst (start env s) = 1 \<and> running (snd (start env s))
              \<and> socket (snd (start env s)) = socket_result env)
        \<and> (fst (start env s) = 0 \<longrightarrow>
              socket (snd (start env s)) = - 1 \<and> \<not> running (snd (start env s))
              \<and> (socket_result env' \<ge> 0 \<and> bind_result env' = 0 \<and> listen_result env' = 0
                   \<longrightarrow> fst (start env' (snd (start env s))) = 1)))"
  by (simp add: start_def setupSocket_def Let_def)

theorem start_idempotent_and_failure_unbound_witness:
  "running (listening_server [None] False)
   \<and> start socket_ok (listening_server [None] False) = (1, listening_server [None] False)
   \<and> \<not> running stopped_server
   \<and> fst (start bind_fails stopped_server) = 0
   \<and> socket (snd (start bind_fails stopped_server)) = - 1
   \<and> \<not> running (snd (start bind_fails stopped_server))
   \<and> fst (start socket_ok (snd (start bind_fails stopped_server))) = 1
   \<and> fst (start socket_ok stopped_server) = 1
   \<and> socket (snd (start socket_ok stopped_server)) = 5"
proof -
  have r: "running (listening_server [None] False)" "\<not> running stopped_server"
    by (simp_all add: listening_server_def stopped_server_def HTTPServer_new_def)
  have e: "bind_result bind_fails \<noteq> 0" "socket_result socket_ok \<ge> 0"
    "bind_result socket_ok = 0" "listen_result socket_ok = 0" "socket_result socket_ok = 5"
    by (simp_all add: bind_fails_def socket_ok_def)
  show ?thesis
    using r e
      start_idempotent_and_failure_unbound [of "listening_server [None] False" socket_ok]
      start_idempotent_and_failure_unbound [of stopped_server bind_fails socket_ok]
      start_idempotent_and_failure_unbound [of stopped_server socket_ok]
    by simp
qed

section \<open>The free-slot scans\<close>

lemma last_index_fold:
  "fold (\<lambda>i fr. if P i then int i else fr) [0..<n] (- 1) = idx \<Longrightarrow>
     ((\<forall>i<n. \<not> P i) \<longrightarrow> idx = - 1)
     \<and> ((\<exists>i<n. P i) \<longrightarrow>
          0 \<le> idx \<and> nat idx < n \<and> P (nat idx) \<and> (\<forall>j. nat idx < j \<and> j < n \<longrightarrow> \<not> P j))"
proof (induction n arbitrary: idx)
  case 0
  then show ?case by simp
next
  case (Suc n)
  show ?case
  proof (cases "P n")
    case True
    with Suc.prems have "idx = int n" by simp
    with True show ?thesis by auto
  next
    case False
    with Suc.prems have "fold (\<lambda>i fr. if P i then int i else fr) [0..<n] (- 1) = idx" by simp
    from Suc.IH [OF this] have IH1: "(\<forall>i<n. \<not> P i) \<longrightarrow> idx = - 1"
      and IH2: "(\<exists>i<n. P i) \<longrightarrow>
          0 \<le> idx \<and> nat idx < n \<and> P (nat idx) \<and> (\<forall>j. nat idx < j \<and> j < n \<longrightarrow> \<not> P j)"
      by blast+
    have a: "(\<forall>i<Suc n. \<not> P i) \<longrightarrow> idx = - 1"
      using IH1 by simp
    have b: "(\<exists>i<Suc n. P i) \<longrightarrow>
          0 \<le> idx \<and> nat idx < Suc n \<and> P (nat idx) \<and> (\<forall>j. nat idx < j \<and> j < Suc n \<longrightarrow> \<not> P j)"
    proof
      assume "\<exists>i<Suc n. P i"
      with False have "\<exists>i<n. P i" using less_Suc_eq by blast
      with IH2 have *: "0 \<le> idx" "nat idx < n" "P (nat idx)"
        "\<forall>j. nat idx < j \<and> j < n \<longrightarrow> \<not> P j" by blast+
      from * False have "\<forall>j. nat idx < j \<and> j < Suc n \<longrightarrow> \<not> P j"
        using less_Suc_eq by blast
      with * show "0 \<le> idx \<and> nat idx < Suc n \<and> P (nat idx)
          \<and> (\<forall>j. nat idx < j \<and> j < Suc n \<longrightarrow> \<not> P j)" by simp
    qed
    from a b show ?thesis by blast
  qed
qed

lemma scan_result_fold:
  assumes P: "\<And>i. i < length conns \<Longrightarrow> P i \<longleftrightarrow> conns ! i = None"
  shows "scan_result conns (fold (\<lambda>i fr. if P i then int i else fr) [0..<length conns] (- 1))"
proof -
  let ?n = "length conns"
  let ?idx = "fold (\<lambda>i fr. if P i then int i else fr) [0..<?n] (- 1)"
  have none: "(\<forall>i<?n. \<not> P i) \<longrightarrow> ?idx = - 1"
    and some: "(\<exists>i<?n. P i) \<longrightarrow>
       0 \<le> ?idx \<and> nat ?idx < ?n \<and> P (nat ?idx) \<and> (\<forall>j. nat ?idx < j \<and> j < ?n \<longrightarrow> \<not> P j)"
    using last_index_fold [of P ?n ?idx] by blast+
  have nf: "no_free_slot conns \<longleftrightarrow> (\<forall>i<?n. \<not> P i)"
  proof
    assume "no_free_slot conns"
    then show "\<forall>i<?n. \<not> P i"
      unfolding no_free_slot_def using P nth_mem by blast
  next
    assume a: "\<forall>i<?n. \<not> P i"
    show "no_free_slot conns"
      unfolding no_free_slot_def
    proof
      fix slot assume "slot \<in> set conns"
      then obtain i where "i < ?n" "conns ! i = slot" by (auto simp: in_set_conv_nth)
      with a P show "slot \<noteq> None" by blast
    qed
  qed
  show ?thesis
  proof (cases "no_free_slot conns")
    case True
    with nf none have "?idx = - 1" by blast
    with True show ?thesis unfolding scan_result_def by (simp only: if_True)
  next
    case False
    with nf have "\<exists>i<?n. P i" by blast
    with some have i: "0 \<le> ?idx" "nat ?idx < ?n" "P (nat ?idx)"
      and above: "\<forall>j. nat ?idx < j \<and> j < ?n \<longrightarrow> \<not> P j" by blast+
    from i P have "conns ! nat ?idx = None" by blast
    moreover have "\<forall>j \<in> set [Suc (nat ?idx)..<?n]. conns ! j \<noteq> None"
    proof
      fix j assume "j \<in> set [Suc (nat ?idx)..<?n]"
      then have "nat ?idx < j" "j < ?n" by simp_all
      with above P show "conns ! j \<noteq> None" by blast
    qed
    ultimately have "highest_free_slot conns ?idx"
      unfolding highest_free_slot_def using i by blast
    with False show ?thesis unfolding scan_result_def by (simp only: if_False)
  qed
qed

lemma findFree_scan: "scan_result conns (findFree conns)"
  unfolding findFree_def by (rule scan_result_fold) simp


lemma scan_result_none: "scan_result conns (- 1) \<Longrightarrow> no_free_slot conns"
  by (simp add: scan_result_def highest_free_slot_def split: if_splits)

lemma map_prefix_update:
  assumes "n < length xs"
  shows "(map f (take n xs) @ drop n xs)[n := f (xs ! n)]
           = map f (take (Suc n) xs) @ drop (Suc n) xs"
proof -
  let ?ys = "map f (take n xs)"
  from assms have d: "drop n xs = xs ! n # drop (Suc n) xs"
    by (simp add: Cons_nth_drop_Suc)
  from assms have l: "length ?ys = n" by simp
  have "(?ys @ xs ! n # drop (Suc n) xs)[length ?ys := f (xs ! n)]
          = ?ys @ f (xs ! n) # drop (Suc n) xs"
    by (rule list_update_length)
  then have "(?ys @ xs ! n # drop (Suc n) xs)[n := f (xs ! n)]
          = ?ys @ f (xs ! n) # drop (Suc n) xs"
    unfolding l .
  moreover from assms have "map f (take (Suc n) xs) = ?ys @ [f (xs ! n)]"
    by (simp add: take_Suc_conv_app_nth)
  ultimately show ?thesis unfolding d by simp
qed

lemma processSlot_connections:
  assumes "i < length (sc_connections st)"
  shows "sc_connections (processSlot tpc ops i st) =
       (sc_connections st)[i := reclaimSlot tpc ops (sc_connections st ! i)]"
proof (cases "sc_connections st ! i")
  case None
  then have "(sc_connections st)[i := None] = sc_connections st"
    by (metis list_update_id)
  with None show ?thesis by (simp add: processSlot_def reclaimSlot_def)
next
  case (Some c)
  then have "(sc_connections st)[i := Some c] = sc_connections st"
    by (metis list_update_id)
  with Some show ?thesis by (simp add: processSlot_def reclaimSlot_def Let_def)
qed

lemma processSlot_free:
  "sc_free (processSlot tpc ops i st) =
     (if reclaimSlot tpc ops (sc_connections st ! i) = None then int i else sc_free st)"
  by (simp add: processSlot_def reclaimSlot_def Let_def split: option.splits)

lemma processConnections_prefix:
  "n \<le> length conns \<Longrightarrow>
     sc_connections (fold (processSlot tpc ops) [0..<n]
        \<lparr>sc_connections = conns, sc_free = - 1, sc_max_fd = - 1, sc_except_fds = {}\<rparr>)
       = map (reclaimSlot tpc ops) (take n conns) @ drop n conns
     \<and> sc_free (fold (processSlot tpc ops) [0..<n]
        \<lparr>sc_connections = conns, sc_free = - 1, sc_max_fd = - 1, sc_except_fds = {}\<rparr>)
       = fold (\<lambda>i fr. if reclaimSlot tpc ops (conns ! i) = None then int i else fr) [0..<n] (- 1)"
proof (induction n)
  case 0
  show ?case by simp
next
  case (Suc n)
  let ?st = "fold (processSlot tpc ops) [0..<n]
        \<lparr>sc_connections = conns, sc_free = - 1, sc_max_fd = - 1, sc_except_fds = {}\<rparr>"
  from Suc have n: "n < length conns" by simp
  with Suc.IH have c: "sc_connections ?st = map (reclaimSlot tpc ops) (take n conns) @ drop n conns"
    and f: "sc_free ?st =
      fold (\<lambda>i fr. if reclaimSlot tpc ops (conns ! i) = None then int i else fr) [0..<n] (- 1)"
    by simp_all
  from n c have nth: "sc_connections ?st ! n = conns ! n"
    by (simp add: nth_append)
  from n c have len: "n < length (sc_connections ?st)" by simp
  have "sc_connections (processSlot tpc ops n ?st)
          = (map (reclaimSlot tpc ops) (take n conns) @ drop n conns)[n := reclaimSlot tpc ops (conns ! n)]"
    using processSlot_connections [OF len] nth c by simp
  also have "\<dots> = map (reclaimSlot tpc ops) (take (Suc n) conns) @ drop (Suc n) conns"
    using n by (rule map_prefix_update)
  finally have c': "sc_connections (processSlot tpc ops n ?st)
     = map (reclaimSlot tpc ops) (take (Suc n) conns) @ drop (Suc n) conns" .
  have f': "sc_free (processSlot tpc ops n ?st) =
     (if reclaimSlot tpc ops (conns ! n) = None then int n
      else fold (\<lambda>i fr. if reclaimSlot tpc ops (conns ! i) = None then int i else fr) [0..<n] (- 1))"
    using processSlot_free [of tpc ops n ?st] nth f by simp
  from c' f' show ?case by simp
qed

lemma processConnections_connections:
  "sc_connections (processConnections tpc ops conns) = map (reclaimSlot tpc ops) conns"
  using processConnections_prefix [of "length conns" conns tpc ops]
  by (simp add: processConnections_def)

lemma processConnections_free:
  "scan_result (sc_connections (processConnections tpc ops conns))
     (sc_free (processConnections tpc ops conns))"
proof -
  have "sc_free (processConnections tpc ops conns) =
      fold (\<lambda>i fr. if reclaimSlot tpc ops (conns ! i) = None then int i else fr)
        [0..<length conns] (- 1)"
    using processConnections_prefix [of "length conns" conns tpc ops]
    by (simp add: processConnections_def)
  moreover have "scan_result (map (reclaimSlot tpc ops) conns)
     (fold (\<lambda>i fr. if reclaimSlot tpc ops (conns ! i) = None then int i else fr)
        [0..<length conns] (- 1))"
    using scan_result_fold [of "map (reclaimSlot tpc ops) conns"
        "\<lambda>i. reclaimSlot tpc ops (conns ! i) = None"] by simp
  ultimately show ?thesis by (simp add: processConnections_connections)
qed

section \<open>Admission\<close>

lemma startConnection_pending:
  "pendingConnection (snd (startConnection tpc ops aenv idx s)) = False"
  by (simp add: startConnection_def createConnection_def startConnectionTask_def Let_def
      split: prod.splits)

lemma startConnection_frame:
  "socket (snd (startConnection tpc ops aenv idx s)) = socket s
   \<and> running (snd (startConnection tpc ops aenv idx s)) = running s
   \<and> defaultHeaders (snd (startConnection tpc ops aenv idx s)) = defaultHeaders s
   \<and> headers_store (snd (startConnection tpc ops aenv idx s)) = headers_store s
   \<and> length (connections (snd (startConnection tpc ops aenv idx s))) = length (connections s)"
  by (simp add: startConnection_def createConnection_def startConnectionTask_def Let_def
      split: prod.splits)

lemma admitPending_events:
  "snd (snd (admitPending tpc ops aenv fr s)) =
     (if pendingConnection s \<and> fr > - 1 then [StartConnection fr (connections s)] else [])"
  by (simp add: admitPending_def Let_def)

lemma admitPending_pending:
  "pendingConnection (fst (admitPending tpc ops aenv fr s)) =
     (pendingConnection s \<and> \<not> fr > - 1)"
  by (auto simp: admitPending_def Let_def startConnection_pending)

lemma admitPending_socket:
  "socket (fst (admitPending tpc ops aenv fr s)) = socket s"
  by (simp add: admitPending_def Let_def startConnection_frame)

lemma admitPending_scan:
  "scan_result (connections s) fr \<Longrightarrow>
     scan_result (connections (fst (admitPending tpc ops aenv fr s)))
       (fst (snd (admitPending tpc ops aenv fr s)))"
  by (simp add: admitPending_def Let_def findFree_scan)

lemma handleListener_events:
  "snd (handleListener tpc ops aenv nfds rfds fr s) =
     (if nfds > 0 \<and> socket s \<in> rfds then
        if fr > - 1 then [StartConnection fr (connections s)]
        else if \<not> pendingConnection s then [PendingRaised] else []
      else [])"
  by (simp add: handleListener_def)

lemma handleListener_pending:
  "pendingConnection (fst (handleListener tpc ops aenv nfds rfds fr s)) =
     (if nfds > 0 \<and> socket s \<in> rfds then
        if fr > - 1 then False else True
      else pendingConnection s)"
  by (simp add: handleListener_def startConnection_pending)

lemma handleListener_raised:
  "PendingRaised \<in> set (snd (handleListener tpc ops aenv nfds rfds fr s)) \<Longrightarrow>
     connections (fst (handleListener tpc ops aenv nfds rfds fr s)) = connections s \<and> \<not> fr > - 1
     \<and> nfds > 0 \<and> socket s \<in> rfds \<and> \<not> pendingConnection s"
  by (simp add: handleListener_def split: if_splits)

lemma loop_running:
  "running s \<Longrightarrow>
   loop tpc ops env timeoutMs s =
     (let st = processConnections tpc ops (connections s);
          s1 = s\<lparr>connections := sc_connections st\<rparr>;
          ap = admitPending tpc ops (admit_pending env) (sc_free st) s1;
          s2 = fst ap;
          read_fds = (if \<not> pendingConnection s2 then {socket s2} else {});
          max_fd = (if \<not> pendingConnection s2 \<and> socket s2 > sc_max_fd st
                    then socket s2 else sc_max_fd st);
          hl = handleListener tpc ops (admit_new env) (select_nfds env)
                 (read_fds \<inter> select_readable env) (fst (snd ap)) s2;
          deltaMs = millis_start env + timeoutMs - millis_end env
      in \<lparr>returned = (if deltaMs > 0x7FFFFFFF then 0 else deltaMs),
          server = fst hl,
          events = snd (snd ap) @ [Select (max_fd + 1) read_fds (sc_except_fds st)
                                    (mk_timeout timeoutMs)] @ snd hl\<rparr>)"
  by (simp add: loop_def Let_def split: prod.splits)







section \<open>Admissions during one call of \<open>loop\<close>\<close>

lemma admitted_append: "admitted (xs @ ys) = admitted xs + admitted ys"
  by (induction xs rule: admitted.induct) simp_all

lemma select_timeouts_append:
  "select_timeouts (xs @ ys) = select_timeouts xs @ select_timeouts ys"
  by (induction xs rule: select_timeouts.induct) simp_all

lemma loop_admitted:
  "admitted (events (loop tpc ops env timeoutMs s)) \<le> 2
   \<and> (admitted (events (loop tpc ops env timeoutMs s)) = 2 \<longrightarrow>
        running s \<and> pendingConnection s \<and> select_nfds env > 0 \<and> socket s \<in> select_readable env)
   \<and> (\<not> pendingConnection s \<longrightarrow> admitted (events (loop tpc ops env timeoutMs s)) \<le> 1)"
proof (cases "running s")
  case False
  then show ?thesis by (simp add: loop_def)
next
  case True
  then show ?thesis
    by (simp add: loop_running Let_def admitted_append admitPending_events handleListener_events
        admitPending_pending admitPending_socket)
qed

lemma loop_two_admissions:
  "events (loop False conn_ops (inbound 7 8) 100
             (listening_server [Some terminated_conn, Some terminated_conn] True))
     = [StartConnection 1 [None, None], Select 6 {5} {} (mk_timeout 100),
        StartConnection 0 [None, Some (fresh_conn\<lparr>c_socket := 7, c_serverSocket := 5,
                                                    c_defaultHeaders := 64\<rparr>)]]
   \<and> connections (server (loop False conn_ops (inbound 7 8) 100
             (listening_server [Some terminated_conn, Some terminated_conn] True)))
     = [Some (fresh_conn\<lparr>c_socket := 8, c_serverSocket := 5, c_defaultHeaders := 64\<rparr>),
        Some (fresh_conn\<lparr>c_socket := 7, c_serverSocket := 5, c_defaultHeaders := 64\<rparr>)]"
  by (simp add: run_defs)

lemma loop_raises_then_both_terminate:
  "server (loop False conn_ops (inbound 7 8) 100 (listening_server [Some slow_conn, Some slow_conn] False))
     = listening_server [Some terminated_conn, Some terminated_conn] True"
  by (simp add: run_defs)

lemma loop_one_admission:
  "events (loop False conn_ops (inbound 7 8) 100 (listening_server [None] False))
     = [Select 6 {5} {} (mk_timeout 100), StartConnection 0 [None]]"
  by (simp add: run_defs)

lemma loop_events_order:
  assumes "running s"
  shows "\<exists>ev2 ev3 nfds rfds efds.
      events (loop tpc ops env timeoutMs s)
        = ev2 @ [Select nfds rfds efds (mk_timeout timeoutMs)] @ ev3
      \<and> admitted ev2 \<le> 1 \<and> admitted ev3 \<le> 1
      \<and> select_timeouts ev2 = [] \<and> select_timeouts ev3 = []
      \<and> (admitted ev2 = 1 \<longrightarrow> pendingConnection s)
      \<and> (admitted ev3 = 1 \<longrightarrow> select_nfds env > 0 \<and> socket s \<in> select_readable env)"
proof -
  let ?st = "processConnections tpc ops (connections s)"
  let ?s1 = "s\<lparr>connections := sc_connections ?st\<rparr>"
  let ?ap = "admitPending tpc ops (admit_pending env) (sc_free ?st) ?s1"
  let ?rfds = "if \<not> pendingConnection (fst ?ap) then {socket (fst ?ap)} else {}"
  let ?max_fd = "if \<not> pendingConnection (fst ?ap) \<and> socket (fst ?ap) > sc_max_fd ?st
                 then socket (fst ?ap) else sc_max_fd ?st"
  let ?hl = "handleListener tpc ops (admit_new env) (select_nfds env)
               (?rfds \<inter> select_readable env) (fst (snd ?ap)) (fst ?ap)"
  have ev: "events (loop tpc ops env timeoutMs s)
      = snd (snd ?ap) @ [Select (?max_fd + 1) ?rfds (sc_except_fds ?st) (mk_timeout timeoutMs)]
          @ snd ?hl"
    using assms by (simp add: loop_running Let_def)
  have a2: "admitted (snd (snd ?ap)) \<le> 1" "select_timeouts (snd (snd ?ap)) = []"
    "admitted (snd (snd ?ap)) = 1 \<longrightarrow> pendingConnection s"
    by (simp_all add: admitPending_events)
  have a3: "admitted (snd ?hl) \<le> 1" "select_timeouts (snd ?hl) = []"
    by (simp_all add: handleListener_events)
  have r3: "admitted (snd ?hl) = 1 \<longrightarrow> select_nfds env > 0 \<and> socket s \<in> select_readable env"
    by (auto simp: handleListener_events admitPending_socket split: if_splits)
  from ev a2 a3 r3 show ?thesis by blast
qed

text \<open>
  Claim C2, as amended: during one call of \<^verbatim>\<open>loop\<close> at most two connections are
  admitted, at most one before the poll (the pending one) and at most one after it (a
  new one).  Both are admitted in the same call only when the gate was raised at entry
  and the listener is reported readable by the poll; a call that starts with the gate
  down admits at most one connection.  In detail: a call on a stopped server does
  nothing; the events of a call on a running server are those before the poll, the one
  call of \<^verbatim>\<open>select\<close>, and those after it, with at most one admission on either side; an
  admission before the poll needs the gate raised at entry, one after it needs the
  listener reported readable.
\<close>

theorem loop_admits_at_most_two:
  "admitted (events (loop tpc ops env timeoutMs s)) \<le> 2
   \<and> (admitted (events (loop tpc ops env timeoutMs s)) = 2 \<longrightarrow>
        running s \<and> pendingConnection s \<and> select_nfds env > 0 \<and> socket s \<in> select_readable env)
   \<and> (\<not> pendingConnection s \<longrightarrow> admitted (events (loop tpc ops env timeoutMs s)) \<le> 1)
   \<and> (\<not> running s \<longrightarrow> events (loop tpc ops env timeoutMs s) = [])
   \<and> (running s \<longrightarrow>
        (\<exists>ev2 ev3 nfds rfds efds.
           events (loop tpc ops env timeoutMs s)
             = ev2 @ [Select nfds rfds efds (mk_timeout timeoutMs)] @ ev3
           \<and> admitted ev2 \<le> 1 \<and> admitted ev3 \<le> 1
           \<and> select_timeouts ev2 = [] \<and> select_timeouts ev3 = []
           \<and> (admitted ev2 = 1 \<longrightarrow> pendingConnection s)
           \<and> (admitted ev3 = 1 \<longrightarrow> select_nfds env > 0 \<and> socket s \<in> select_readable env)))"
proof -
  have "\<not> running s \<longrightarrow> events (loop tpc ops env timeoutMs s) = []"
    by (simp add: loop_def)
  with loop_admitted [of tpc ops env timeoutMs s] loop_events_order [of s tpc ops env timeoutMs]
  show ?thesis by blast
qed

theorem loop_admits_at_most_two_witness:
  "admitted (events (loop False conn_ops (inbound 7 8) 100
       (listening_server [Some terminated_conn, Some terminated_conn] True))) = 2
   \<and> running (listening_server [Some terminated_conn, Some terminated_conn] True)
   \<and> pendingConnection (listening_server [Some terminated_conn, Some terminated_conn] True)
   \<and> select_nfds (inbound 7 8) > 0
   \<and> socket (listening_server [Some terminated_conn, Some terminated_conn] True)
        \<in> select_readable (inbound 7 8)
   \<and> events (loop False conn_ops (inbound 7 8) 100
        (listening_server [Some terminated_conn, Some terminated_conn] True))
       = [StartConnection 1 [None, None]] @ [Select 6 {5} {} (mk_timeout 100)]
          @ [StartConnection 0 [None, Some (fresh_conn\<lparr>c_socket := 7, c_serverSocket := 5,
                                                       c_defaultHeaders := 64\<rparr>)]]
   \<and> admitted [StartConnection 1 [None, None :: conn option]] = 1
   \<and> admitted [StartConnection 0 [None, Some (fresh_conn\<lparr>c_socket := 7, c_serverSocket := 5,
                                                       c_defaultHeaders := 64\<rparr>)]] = 1
   \<and> \<not> pendingConnection (listening_server [None] False)
   \<and> admitted (events (loop False conn_ops (inbound 7 8) 100 (listening_server [None] False))) = 1
   \<and> \<not> running stopped_server
   \<and> events (loop False conn_ops (inbound 7 8) 100 stopped_server) = []"
proof -
  have f: "running (listening_server [Some terminated_conn, Some terminated_conn] True)"
    "pendingConnection (listening_server [Some terminated_conn, Some terminated_conn] True)"
    "socket (listening_server [Some terminated_conn, Some terminated_conn] True)
        \<in> select_readable (inbound 7 8)"
    "select_nfds (inbound 7 8) > 0"
    "\<not> pendingConnection (listening_server [None] False)"
    "\<not> running stopped_server"
    by (simp_all add: listening_server_def inbound_def stopped_server_def HTTPServer_new_def)
  have a: "admitted (events (loop False conn_ops (inbound 7 8) 100
       (listening_server [Some terminated_conn, Some terminated_conn] True))) = 2"
    "admitted (events (loop False conn_ops (inbound 7 8) 100 (listening_server [None] False))) = 1"
    by (simp_all add: loop_two_admissions loop_one_admission)
  have e: "events (loop False conn_ops (inbound 7 8) 100
        (listening_server [Some terminated_conn, Some terminated_conn] True))
       = [StartConnection 1 [None, None]] @ [Select 6 {5} {} (mk_timeout 100)]
          @ [StartConnection 0 [None, Some (fresh_conn\<lparr>c_socket := 7, c_serverSocket := 5,
                                                       c_defaultHeaders := 64\<rparr>)]]"
    by (simp add: loop_two_admissions)
  have n: "events (loop False conn_ops (inbound 7 8) 100 stopped_server) = []"
    using f(6)
      loop_admits_at_most_two [of False conn_ops "inbound 7 8" 100 stopped_server]
    by blast
  have t: "running (listening_server [Some terminated_conn, Some terminated_conn] True)
      \<and> pendingConnection (listening_server [Some terminated_conn, Some terminated_conn] True)
      \<and> select_nfds (inbound 7 8) > 0
      \<and> socket (listening_server [Some terminated_conn, Some terminated_conn] True)
           \<in> select_readable (inbound 7 8)"
    using a(1)
      loop_admits_at_most_two [of False conn_ops "inbound 7 8" 100
        "listening_server [Some terminated_conn, Some terminated_conn] True"]
    by blast
  have o: "admitted (events (loop False conn_ops (inbound 7 8) 100
        (listening_server [None] False))) \<le> 1"
    using f(5)
      loop_admits_at_most_two [of False conn_ops "inbound 7 8" 100 "listening_server [None] False"]
    by blast
  from f a e n t o show ?thesis by simp
qed

text \<open>
  The claim as stated fails: a call in which the listener is readable while both slots
  are occupied raises the gate; once both occupants have terminated, the next call
  reclaims both slots, admits the pending connection into slot 1 and, the listener being
  readable again, a new connection into slot 0.
\<close>

theorem loop_admits_two_counterexample:
  "server (loop False conn_ops (inbound 7 8) 100 (listening_server [Some slow_conn, Some slow_conn] False))
     = listening_server [Some terminated_conn, Some terminated_conn] True
   \<and> running (listening_server [Some terminated_conn, Some terminated_conn] True)
   \<and> events (loop False conn_ops (inbound 7 8) 100
             (listening_server [Some terminated_conn, Some terminated_conn] True))
     = [StartConnection 1 [None, None], Select 6 {5} {} (mk_timeout 100),
        StartConnection 0 [None, Some (fresh_conn\<lparr>c_socket := 7, c_serverSocket := 5,
                                                    c_defaultHeaders := 64\<rparr>)]]
   \<and> admitted (events (loop False conn_ops (inbound 7 8) 100
             (listening_server [Some terminated_conn, Some terminated_conn] True))) = 2
   \<and> connections (server (loop False conn_ops (inbound 7 8) 100
             (listening_server [Some terminated_conn, Some terminated_conn] True)))
     = [Some (fresh_conn\<lparr>c_socket := 8, c_serverSocket := 5, c_defaultHeaders := 64\<rparr>),
        Some (fresh_conn\<lparr>c_socket := 7, c_serverSocket := 5, c_defaultHeaders := 64\<rparr>)]"
  by (simp add: loop_two_admissions loop_raises_then_both_terminate)
    (simp add: listening_server_def)

section \<open>Roll-back of a failed admission\<close>

lemma startConnection_cooperative:
  "startConnection False ops aenv idx s =
     (accept_result aenv,
      s\<lparr>pendingConnection := False, pendingQueue := xQueueReceive (pendingQueue s),
        connections := (connections s)
          [nat idx := (if accept_result aenv < 0 then None
                       else Some (acceptConnection ops (accept_result aenv)
                              (initialize ops (socket s) (defaultHeaders s)
                                 (new_HTTPConnection ops))))]\<rparr>)"
  by (simp add: startConnection_def createConnection_def Let_def)

lemma startConnection_accept_zero:
  "connections (snd (startConnection False conn_ops \<lparr>accept_result = 0, task_created = False\<rparr> 0
       (listening_server [None] False)))
     = [Some (fresh_conn\<lparr>c_socket := 0, c_serverSocket := 5, c_defaultHeaders := 64\<rparr>)]
   \<and> fst (startConnection False conn_ops \<lparr>accept_result = 0, task_created = False\<rparr> 0
       (listening_server [None] False)) = 0"
  by (simp add: startConnection_cooperative listening_server_def conn_ops_def fresh_conn_def)

text \<open>
  Claim C3, as amended: in the cooperative configuration, whenever
  \<^verbatim>\<open>acceptConnection()\<close> returns a negative result code, \<^verbatim>\<open>startConnection\<close> returns that
  code and leaves the slot empty, the other slots untouched: if the slot was empty
  before, the slot array is as it was.  With a result code of 0 or more the new
  connection stays in its slot.
\<close>

theorem startConnection_rolls_back_negative_result:
  "(accept_result aenv < 0 \<longrightarrow>
      fst (startConnection False ops aenv idx s) = accept_result aenv
      \<and> connections (snd (startConnection False ops aenv idx s)) = (connections s)[nat idx := None]
      \<and> (0 \<le> idx \<and> nat idx < length (connections s) \<longrightarrow>
           connections (snd (startConnection False ops aenv idx s)) ! nat idx = None)
      \<and> (connections s ! nat idx = None \<longrightarrow>
           connections (snd (startConnection False ops aenv idx s)) = connections s))
   \<and> (0 \<le> accept_result aenv \<and> 0 \<le> idx \<and> nat idx < length (connections s) \<longrightarrow>
        connections (snd (startConnection False ops aenv idx s)) ! nat idx
          = Some (acceptConnection ops (accept_result aenv)
                    (initialize ops (socket s) (defaultHeaders s) (new_HTTPConnection ops))))"
proof -
  have "connections s ! nat idx = None \<longrightarrow> (connections s)[nat idx := None] = connections s"
    by (metis list_update_id)
  then show ?thesis by (simp add: startConnection_cooperative)
qed

theorem startConnection_rolls_back_negative_result_witness:
  "accept_result \<lparr>accept_result = - 1, task_created = False\<rparr> < 0
   \<and> (0::int) \<le> 0 \<and> nat 0 < length (connections (listening_server [None] False))
   \<and> connections (listening_server [None] False) ! nat 0 = None
   \<and> connections (snd (startConnection False conn_ops \<lparr>accept_result = - 1, task_created = False\<rparr> 0
        (listening_server [None] False))) = [None]
   \<and> 0 \<le> accept_result \<lparr>accept_result = 7, task_created = False\<rparr>
   \<and> connections (snd (startConnection False conn_ops \<lparr>accept_result = 7, task_created = False\<rparr> 0
        (listening_server [None] False))) ! nat 0
       = Some (fresh_conn\<lparr>c_socket := 7, c_serverSocket := 5, c_defaultHeaders := 64\<rparr>)"
  using startConnection_rolls_back_negative_result
      [of "\<lparr>accept_result = - 1, task_created = False\<rparr>" conn_ops 0 "listening_server [None] False"]
    startConnection_rolls_back_negative_result
      [of "\<lparr>accept_result = 7, task_created = False\<rparr>" conn_ops 0 "listening_server [None] False"]
  by (simp add: listening_server_def conn_ops_def fresh_conn_def)

text \<open>
  The claim as stated fails at the result code 0, which is not greater than 0: the
  connection stays in its slot.
\<close>

theorem startConnection_accept_zero_counterexample:
  "accept_result \<lparr>accept_result = 0, task_created = False\<rparr> \<le> 0
   \<and> connections (snd (startConnection False conn_ops \<lparr>accept_result = 0, task_created = False\<rparr> 0
       (listening_server [None] False)))
     = [Some (fresh_conn\<lparr>c_socket := 0, c_serverSocket := 5, c_defaultHeaders := 64\<rparr>)]
   \<and> connections (snd (startConnection False conn_ops \<lparr>accept_result = 0, task_created = False\<rparr> 0
       (listening_server [None] False))) ! 0 \<noteq> None"
  by (simp add: startConnection_accept_zero)

section \<open>Shutdown: \<open>stop\<close>\<close>

lemma closeSlot_eq:
  assumes "i < length conns"
  shows "closeSlot ops i (conns, b) =
           (conns[i := closeStep ops (conns ! i)], b \<or> closeStep ops (conns ! i) \<noteq> None)"
proof (cases "conns ! i")
  case None
  then have "conns[i := None] = conns" by (metis list_update_id)
  with None show ?thesis by (simp add: closeSlot_def closeStep_def)
next
  case (Some c)
  then show ?thesis by (simp add: closeSlot_def closeStep_def Let_def)
qed

lemma stopSweep_prefix:
  "n \<le> length conns \<Longrightarrow>
     fold (closeSlot ops) [0..<n] (conns, False) =
       (map (closeStep ops) (take n conns) @ drop n conns,
        \<not> all_empty (map (closeStep ops) (take n conns)))"
proof (induction n)
  case 0
  show ?case by (simp add: all_empty_def)
next
  case (Suc n)
  then have n: "n < length conns" by simp
  let ?cs = "map (closeStep ops) (take n conns) @ drop n conns"
  from n have nth: "?cs ! n = conns ! n" by (simp add: nth_append)
  from n have len: "n < length ?cs" by simp
  from Suc.IH n have "fold (closeSlot ops) [0..<Suc n] (conns, False)
      = closeSlot ops n (?cs, \<not> all_empty (map (closeStep ops) (take n conns)))"
    by simp
  also have "\<dots> = (?cs[n := closeStep ops (conns ! n)],
        \<not> all_empty (map (closeStep ops) (take n conns)) \<or> closeStep ops (conns ! n) \<noteq> None)"
    using closeSlot_eq [OF len] nth by simp
  also have "?cs[n := closeStep ops (conns ! n)]
       = map (closeStep ops) (take (Suc n) conns) @ drop (Suc n) conns"
    using n by (rule map_prefix_update)
  also have "(\<not> all_empty (map (closeStep ops) (take n conns)) \<or> closeStep ops (conns ! n) \<noteq> None)
       = (\<not> all_empty (map (closeStep ops) (take (Suc n) conns)))"
    using n by (auto simp: all_empty_def take_Suc_conv_app_nth)
  finally show ?case .
qed

lemma stopSweep_eq:
  "stopSweep ops conns =
     (map (closeStep ops) conns, \<not> all_empty (map (closeStep ops) conns))"
  using stopSweep_prefix [of "length conns" conns ops] by (simp add: stopSweep_def)

lemma stopLoop_unfold:
  "stopLoop ops conns =
     (if all_empty (map (closeStep ops) conns) then Some (map (closeStep ops) conns)
      else stopLoop ops (map (closeStep ops) conns))"
  by (subst stopLoop.simps) (simp add: stopSweep_eq)

lemma stopLoop_bounded:
  "\<forall>c. Some c \<in> set conns \<longrightarrow> (\<exists>k. 1 \<le> k \<and> k \<le> K \<and> isClosed ops ((closeConnection ops ^^ k) c))
   \<Longrightarrow> \<exists>conns'. stopLoop ops conns = Some conns' \<and> length conns' = length conns \<and> all_empty conns'"
proof (induction K arbitrary: conns)
  case 0
  then have none: "\<forall>slot \<in> set conns. slot = None"
    by (metis le_zero_eq not_one_le_zero option.exhaust)
  then have "map (closeStep ops) conns = conns"
    by (intro map_idI) (auto simp: closeStep_def)
  with none have "stopLoop ops conns = Some conns"
    by (subst stopLoop_unfold) (simp add: all_empty_def)
  with none show ?case by (simp add: all_empty_def)
next
  case (Suc K)
  let ?cs = "map (closeStep ops) conns"
  show ?case
  proof (cases "all_empty ?cs")
    case True
    then have "stopLoop ops conns = Some ?cs"
      by (subst stopLoop_unfold) simp
    with True show ?thesis by simp
  next
    case False
    then have step: "stopLoop ops conns = stopLoop ops ?cs"
      by (subst stopLoop_unfold) simp
    have "\<forall>c'. Some c' \<in> set ?cs \<longrightarrow>
        (\<exists>k. 1 \<le> k \<and> k \<le> K \<and> isClosed ops ((closeConnection ops ^^ k) c'))"
    proof (intro allI impI)
      fix c' assume "Some c' \<in> set ?cs"
      then obtain slot where slot: "slot \<in> set conns" "closeStep ops slot = Some c'"
        by auto
      then obtain c where c: "slot = Some c" "c' = closeConnection ops c"
        "\<not> isClosed ops (closeConnection ops c)"
        by (auto simp: closeStep_def split: option.splits if_splits)
      with slot Suc.prems obtain k where k: "1 \<le> k" "k \<le> Suc K"
        "isClosed ops ((closeConnection ops ^^ k) c)" by blast
      from k c have "k \<noteq> 1" by auto
      with k obtain m where m: "k = Suc m" "1 \<le> m" "m \<le> K"
        by (cases k) auto
      from k m c have "isClosed ops ((closeConnection ops ^^ m) c')"
        by (simp add: funpow_swap1)
      with m show "\<exists>k. 1 \<le> k \<and> k \<le> K \<and> isClosed ops ((closeConnection ops ^^ k) c')"
        by blast
    qed
    from Suc.IH [OF this] step show ?thesis by simp
  qed
qed

lemma closing_bound:
  "\<forall>c. Some c \<in> set conns \<longrightarrow> eventually_closed ops c \<Longrightarrow>
   \<exists>K. \<forall>c. Some c \<in> set conns \<longrightarrow>
         (\<exists>k. 1 \<le> k \<and> k \<le> K \<and> isClosed ops ((closeConnection ops ^^ k) c))"
proof (induction conns)
  case Nil
  show ?case by simp
next
  case (Cons slot conns)
  then obtain K where K: "\<forall>c. Some c \<in> set conns \<longrightarrow>
         (\<exists>k. 1 \<le> k \<and> k \<le> K \<and> isClosed ops ((closeConnection ops ^^ k) c))"
    by auto
  show ?case
  proof (cases slot)
    case None
    with K show ?thesis by auto
  next
    case (Some c0)
    with Cons.prems obtain k0 where k0: "1 \<le> k0" "isClosed ops ((closeConnection ops ^^ k0) c0)"
      by (auto simp: eventually_closed_def)
    have "\<forall>c. Some c \<in> set (slot # conns) \<longrightarrow>
         (\<exists>k. 1 \<le> k \<and> k \<le> max K k0 \<and> isClosed ops ((closeConnection ops ^^ k) c))"
    proof (intro allI impI)
      fix c assume "Some c \<in> set (slot # conns)"
      then consider "c = c0" | "Some c \<in> set conns" using Some by auto
      then show "\<exists>k. 1 \<le> k \<and> k \<le> max K k0 \<and> isClosed ops ((closeConnection ops ^^ k) c)"
      proof cases
        case 1
        with k0 show ?thesis by (intro exI [of _ k0]) simp
      next
        case 2
        with K obtain k where "1 \<le> k" "k \<le> K" "isClosed ops ((closeConnection ops ^^ k) c)"
          by blast
        then show ?thesis by (intro exI [of _ k]) simp
      qed
    qed
    then show ?thesis by blast
  qed
qed

lemma stopLoop_terminates:
  assumes "\<forall>c. Some c \<in> set conns \<longrightarrow> eventually_closed ops c"
  shows "\<exists>conns'. stopLoop ops conns = Some conns' \<and> length conns' = length conns \<and> all_empty conns'"
proof -
  from closing_bound [OF assms] obtain K where "\<forall>c. Some c \<in> set conns \<longrightarrow>
         (\<exists>k. 1 \<le> k \<and> k \<le> K \<and> isClosed ops ((closeConnection ops ^^ k) c))" ..
  then show ?thesis by (rule stopLoop_bounded)
qed

lemma stop_returns:
  assumes "\<forall>c. Some c \<in> set (connections s) \<longrightarrow> eventually_closed ops c"
  shows "\<exists>s'. stop ops s = Some s'
     \<and> (running s \<longrightarrow> length (connections s') = length (connections s)
           \<and> all_empty (connections s') \<and> \<not> running s' \<and> socket s' = - 1)"
proof (cases "running s")
  case False
  then show ?thesis by (simp add: stop_def)
next
  case True
  from stopLoop_terminates [OF assms] obtain conns' where
    "stopLoop ops (connections s) = Some conns'" "length conns' = length (connections s)"
    "all_empty conns'" by blast
  with True show ?thesis by (simp add: stop_def teardownSocket_def)
qed

lemma stop_frame:
  "stop ops s = Some s' \<Longrightarrow>
     pendingConnection s' = pendingConnection s \<and> pendingQueue s' = pendingQueue s
     \<and> headers_store s' = headers_store s \<and> defaultHeaders s' = defaultHeaders s"
  by (auto simp: stop_def teardownSocket_def split: if_splits option.splits)

lemma eventually_closed_examples:
  "eventually_closed conn_ops slow_conn \<and> eventually_closed conn_ops fresh_conn"
proof -
  have "isClosed conn_ops ((closeConnection conn_ops ^^ 2) slow_conn)"
    by (simp add: conn_ops_def slow_conn_def fresh_conn_def numeral_2_eq_2)
  moreover have "isClosed conn_ops ((closeConnection conn_ops ^^ 1) fresh_conn)"
    by (simp add: conn_ops_def fresh_conn_def)
  ultimately show ?thesis
    unfolding eventually_closed_def
    by (metis one_le_numeral order_refl)
qed

lemma stop_example:
  "stop conn_ops (listening_server [Some slow_conn, None, Some fresh_conn] True)
     = Some ((listening_server [None, None, None] True)\<lparr>socket := - 1, running := False\<rparr>)"
proof -
  have 1: "closeStep conn_ops (Some slow_conn) = Some (slow_conn\<lparr>c_closes_left := Suc 0\<rparr>)"
    "closeStep conn_ops (Some fresh_conn) = None" "closeStep conn_ops None = None"
    "closeStep conn_ops (Some (slow_conn\<lparr>c_closes_left := Suc 0\<rparr>)) = None"
    by (simp_all add: closeStep_def conn_ops_def slow_conn_def fresh_conn_def)
  have "stopLoop conn_ops [Some slow_conn, None, Some fresh_conn]
          = stopLoop conn_ops [Some (slow_conn\<lparr>c_closes_left := Suc 0\<rparr>), None, None]"
    by (subst stopLoop_unfold) (simp add: 1 all_empty_def)
  also have "\<dots> = Some [None, None, None]"
    by (subst stopLoop_unfold) (simp add: 1 all_empty_def)
  finally show ?thesis
    by (simp add: stop_def teardownSocket_def listening_server_def)
qed

text \<open>
  Claim C5.  For every capacity and every occupation of the slots: if every occupant
  reports \<^verbatim>\<open>isClosed()\<close> after some number of \<^verbatim>\<open>closeConnection()\<close> requests, then
  \<^verbatim>\<open>stop\<close> called on a running server returns, and on return every slot is empty (the
  capacity is unchanged), \<open>running\<close> is false and the listener descriptor is \<open>-1\<close>.
  Called on a server that is not running, \<^verbatim>\<open>stop\<close> returns at once and changes nothing.
\<close>

theorem stop_terminates_and_empties_every_slot:
  "(\<not> running s \<longrightarrow> stop ops s = Some s)
   \<and> (running s \<and> (\<forall>c. Some c \<in> set (connections s) \<longrightarrow> eventually_closed ops c) \<longrightarrow>
        (\<exists>s'. stop ops s = Some s'
           \<and> length (connections s') = length (connections s)
           \<and> all_empty (connections s') \<and> \<not> running s' \<and> socket s' = - 1))"
proof -
  have "\<not> running s \<longrightarrow> stop ops s = Some s" by (simp add: stop_def)
  moreover have "running s \<and> (\<forall>c. Some c \<in> set (connections s) \<longrightarrow> eventually_closed ops c) \<longrightarrow>
        (\<exists>s'. stop ops s = Some s'
           \<and> length (connections s') = length (connections s)
           \<and> all_empty (connections s') \<and> \<not> running s' \<and> socket s' = - 1)"
    using stop_returns [of s ops] by blast
  ultimately show ?thesis by blast
qed

theorem stop_terminates_and_empties_every_slot_witness:
  "running (listening_server [Some slow_conn, None, Some fresh_conn] True)
   \<and> eventually_closed conn_ops slow_conn \<and> eventually_closed conn_ops fresh_conn
   \<and> stop conn_ops (listening_server [Some slow_conn, None, Some fresh_conn] True)
       = Some ((listening_server [None, None, None] True)\<lparr>socket := - 1, running := False\<rparr>)
   \<and> all_empty (connections
        ((listening_server [None, None, None] True)\<lparr>socket := - 1, running := False\<rparr>))
   \<and> \<not> running stopped_server
   \<and> stop conn_ops stopped_server = Some stopped_server"
proof -
  have r: "running (listening_server [Some slow_conn, None, Some fresh_conn] True)"
    "\<not> running stopped_server"
    by (simp_all add: listening_server_def stopped_server_def HTTPServer_new_def)
  have c: "\<forall>c. Some c \<in> set (connections (listening_server [Some slow_conn, None, Some fresh_conn] True))
              \<longrightarrow> eventually_closed conn_ops c"
    using eventually_closed_examples by (auto simp: listening_server_def)
  have e: "all_empty (connections
        ((listening_server [None, None, None] True)\<lparr>socket := - 1, running := False\<rparr>))"
    by (simp add: all_empty_def listening_server_def)
  show ?thesis
    using r c e eventually_closed_examples
      stop_terminates_and_empties_every_slot
        [of "listening_server [Some slow_conn, None, Some fresh_conn] True" conn_ops]
      stop_terminates_and_empties_every_slot [of stopped_server conn_ops]
    by (simp add: stop_example)
qed

text \<open>
  Claim C10.  \<^verbatim>\<open>stop\<close> changes neither the admission gate nor the signaling channel:
  whenever \<^verbatim>\<open>stop\<close> returns, \<open>pendingConnection\<close> and \<open>pendingQueue\<close> are as they were at
  the call, and they are still so after a following \<^verbatim>\<open>start\<close>, whatever its outcome;
  so a gate that was raised before the shutdown is raised after it.  (And \<^verbatim>\<open>stop\<close> does
  return when every occupant closes after some number of close requests.)
\<close>

theorem stop_keeps_pending_gate:
  "(stop ops s = Some s1 \<longrightarrow>
      pendingConnection s1 = pendingConnection s \<and> pendingQueue s1 = pendingQueue s
      \<and> pendingConnection (snd (start env s1)) = pendingConnection s
      \<and> pendingQueue (snd (start env s1)) = pendingQueue s)
   \<and> ((\<forall>c. Some c \<in> set (connections s) \<longrightarrow> eventually_closed ops c) \<longrightarrow>
        (\<exists>s'. stop ops s = Some s' \<and> pendingConnection s' = pendingConnection s
              \<and> pendingQueue s' = pendingQueue s))"
proof -
  have a: "stop ops s = Some s1 \<longrightarrow>
      pendingConnection s1 = pendingConnection s \<and> pendingQueue s1 = pendingQueue s
      \<and> pendingConnection (snd (start env s1)) = pendingConnection s
      \<and> pendingQueue (snd (start env s1)) = pendingQueue s"
    using stop_frame [of ops s s1] start_frame [of env s1] by simp
  have b: "(\<forall>c. Some c \<in> set (connections s) \<longrightarrow> eventually_closed ops c) \<longrightarrow>
        (\<exists>s'. stop ops s = Some s' \<and> pendingConnection s' = pendingConnection s
              \<and> pendingQueue s' = pendingQueue s)"
  proof
    assume "\<forall>c. Some c \<in> set (connections s) \<longrightarrow> eventually_closed ops c"
    from stop_returns [OF this] obtain s' where "stop ops s = Some s'" by blast
    with stop_frame [of ops s s'] show "\<exists>s'. stop ops s = Some s'
        \<and> pendingConnection s' = pendingConnection s \<and> pendingQueue s' = pendingQueue s"
      by blast
  qed
  from a b show ?thesis by blast
qed

theorem stop_keeps_pending_gate_witness:
  "pendingConnection (listening_server [Some slow_conn, None, Some fresh_conn] True)
   \<and> stop conn_ops (listening_server [Some slow_conn, None, Some fresh_conn] True)
       = Some ((listening_server [None, None, None] True)\<lparr>socket := - 1, running := False\<rparr>)
   \<and> pendingConnection ((listening_server [None, None, None] True)\<lparr>socket := - 1, running := False\<rparr>)
   \<and> pendingQueue ((listening_server [None, None, None] True)\<lparr>socket := - 1, running := False\<rparr>) = [5]
   \<and> fst (start socket_ok
        ((listening_server [None, None, None] True)\<lparr>socket := - 1, running := False\<rparr>)) = 1
   \<and> pendingConnection (snd (start socket_ok
        ((listening_server [None, None, None] True)\<lparr>socket := - 1, running := False\<rparr>)))
   \<and> pendingQueue (snd (start socket_ok
        ((listening_server [None, None, None] True)\<lparr>socket := - 1, running := False\<rparr>))) = [5]"
proof -
  have c: "\<forall>c. Some c \<in> set (connections (listening_server [Some slow_conn, None, Some fresh_conn] True))
              \<longrightarrow> eventually_closed conn_ops c"
    using eventually_closed_examples by (auto simp: listening_server_def)
  have p: "pendingConnection (listening_server [Some slow_conn, None, Some fresh_conn] True)"
    "pendingQueue (listening_server [Some slow_conn, None, Some fresh_conn] True) = [5]"
    by (simp_all add: listening_server_def)
  have st: "fst (start socket_ok
        ((listening_server [None, None, None] True)\<lparr>socket := - 1, running := False\<rparr>)) = 1"
    by (simp add: start_def setupSocket_def Let_def socket_ok_def listening_server_def)
  show ?thesis
    using c p st
      stop_keeps_pending_gate
        [of conn_ops "listening_server [Some slow_conn, None, Some fresh_conn] True"
          "(listening_server [None, None, None] True)\<lparr>socket := - 1, running := False\<rparr>"
          socket_ok]
    by (simp add: stop_example)
qed

section \<open>The admission gate\<close>

lemma loop_gate:
  "gate_replay (pendingConnection s) (events (loop tpc ops env timeoutMs s))
      = Some (pendingConnection (server (loop tpc ops env timeoutMs s)))"
proof (cases "running s")
  case False
  then show ?thesis by (simp add: loop_def)
next
  case True
  then show ?thesis
    by (simp add: loop_running Let_def admitPending_events handleListener_events
        admitPending_pending handleListener_pending admitPending_socket)
qed

lemma loop_gate_changes:
  "(pendingConnection s \<and> \<not> pendingConnection (server (loop tpc ops env timeoutMs s))
      \<longrightarrow> 1 \<le> admitted (events (loop tpc ops env timeoutMs s)))
   \<and> (\<not> pendingConnection s \<and> pendingConnection (server (loop tpc ops env timeoutMs s))
      \<longrightarrow> PendingRaised \<in> set (events (loop tpc ops env timeoutMs s)))"
proof (cases "running s")
  case False
  then show ?thesis by (simp add: loop_def)
next
  case True
  then show ?thesis
    by (auto simp: loop_running Let_def admitPending_events handleListener_events
        admitPending_pending handleListener_pending admitPending_socket admitted_append
        split: if_splits)
qed

lemma loop_raised:
  assumes "PendingRaised \<in> set (events (loop tpc ops env timeoutMs s))"
  shows "running s \<and> select_nfds env > 0 \<and> socket s \<in> select_readable env
     \<and> no_free_slot (connections (server (loop tpc ops env timeoutMs s)))
     \<and> pendingConnection (server (loop tpc ops env timeoutMs s))"
proof (cases "running s")
  case False
  with assms show ?thesis by (simp add: loop_def)
next
  case True
  let ?st = "processConnections tpc ops (connections s)"
  let ?s1 = "s\<lparr>connections := sc_connections ?st\<rparr>"
  let ?ap = "admitPending tpc ops (admit_pending env) (sc_free ?st) ?s1"
  let ?rfds = "(if \<not> pendingConnection (fst ?ap) then {socket (fst ?ap)} else {})
                 \<inter> select_readable env"
  let ?hl = "handleListener tpc ops (admit_new env) (select_nfds env) ?rfds
               (fst (snd ?ap)) (fst ?ap)"
  have sc1: "scan_result (connections ?s1) (sc_free ?st)"
    using processConnections_free [of tpc ops "connections s"] by simp
  then have sc2: "scan_result (connections (fst ?ap)) (fst (snd ?ap))"
    by (rule admitPending_scan)
  from assms True have "PendingRaised \<in> set (snd ?hl)"
    by (auto simp: loop_running Let_def admitPending_events split: if_splits)
  from handleListener_raised [OF this]
  have c: "connections (fst ?hl) = connections (fst ?ap)" and fr: "\<not> fst (snd ?ap) > - 1"
    and n: "select_nfds env > 0" and r: "socket (fst ?ap) \<in> ?rfds" by blast+
  from sc2 have "0 \<le> fst (snd ?ap) \<or> fst (snd ?ap) = - 1"
    by (auto simp: scan_result_def highest_free_slot_def split: if_splits)
  with fr have "fst (snd ?ap) = - 1" by simp
  with sc2 have "no_free_slot (connections (fst ?ap))" by (simp add: scan_result_none)
  with c have nf: "no_free_slot (connections (fst ?hl))" by simp
  from r have rd: "socket s \<in> select_readable env"
    by (simp add: admitPending_socket split: if_splits)
  have srv: "server (loop tpc ops env timeoutMs s) = fst ?hl"
    using True by (simp add: loop_running Let_def)
  have "pendingConnection (fst ?hl)"
    using n r fr by (simp add: handleListener_pending)
  with True n rd nf srv show ?thesis by simp
qed

lemma loop_full_raises:
  "events (loop False conn_ops (inbound 7 8) 100 (listening_server [Some slow_conn] False))
     = [Select 7 {5} {6} (mk_timeout 100), PendingRaised]
   \<and> pendingConnection (server (loop False conn_ops (inbound 7 8) 100
        (listening_server [Some slow_conn] False)))
   \<and> pendingQueue (server (loop False conn_ops (inbound 7 8) 100
        (listening_server [Some slow_conn] False))) = [5]"
  by (simp add: run_defs)

text \<open>
  Claim C4.  During a call of \<^verbatim>\<open>loop\<close> the gate \<open>pendingConnection\<close> changes only through
  the events of the call, an admission clearing it and a raise happening only while it
  is down (so it is never raised twice without a clear in between); it is raised only
  when the poll reported the listener readable while no slot was free; it goes from
  raised to down only in a call that admits a connection (\<^verbatim>\<open>startConnection\<close> leaves it
  down whatever the outcome of the admission), and from down to raised only by a raise.
  \<^verbatim>\<open>start\<close>, \<^verbatim>\<open>setDefaultHeader\<close> and \<^verbatim>\<open>stop\<close> leave it as it is.
\<close>

theorem pending_gate_raised_and_cleared:
  "gate_replay (pendingConnection s) (events (loop tpc ops env timeoutMs s))
       = Some (pendingConnection (server (loop tpc ops env timeoutMs s)))
   \<and> (PendingRaised \<in> set (events (loop tpc ops env timeoutMs s)) \<longrightarrow>
        running s \<and> select_nfds env > 0 \<and> socket s \<in> select_readable env
        \<and> no_free_slot (connections (server (loop tpc ops env timeoutMs s)))
        \<and> pendingConnection (server (loop tpc ops env timeoutMs s)))
   \<and> (pendingConnection s \<and> \<not> pendingConnection (server (loop tpc ops env timeoutMs s))
        \<longrightarrow> 1 \<le> admitted (events (loop tpc ops env timeoutMs s)))
   \<and> (\<not> pendingConnection s \<and> pendingConnection (server (loop tpc ops env timeoutMs s))
        \<longrightarrow> PendingRaised \<in> set (events (loop tpc ops env timeoutMs s)))
   \<and> pendingConnection (snd (startConnection tpc ops aenv idx s)) = False
   \<and> pendingConnection (snd (start senv s)) = pendingConnection s
   \<and> pendingConnection (setDefaultHeader name val s) = pendingConnection s
   \<and> (stop ops s = Some s' \<longrightarrow> pendingConnection s' = pendingConnection s)"
proof -
  have "pendingConnection (setDefaultHeader name val s) = pendingConnection s"
    by (simp add: setDefaultHeader_def)
  moreover have "stop ops s = Some s' \<longrightarrow> pendingConnection s' = pendingConnection s"
    using stop_frame [of ops s s'] by blast
  ultimately show ?thesis
    using loop_gate [of s tpc ops env timeoutMs] loop_raised [of tpc ops env timeoutMs s]
      loop_gate_changes [of s tpc ops env timeoutMs]
      startConnection_pending [of tpc ops aenv idx s] start_frame [of senv s]
    by blast
qed

theorem pending_gate_raised_and_cleared_witness:
  "PendingRaised \<in> set (events (loop False conn_ops (inbound 7 8) 100
        (listening_server [Some slow_conn] False)))
   \<and> \<not> pendingConnection (listening_server [Some slow_conn] False)
   \<and> pendingConnection (server (loop False conn_ops (inbound 7 8) 100
        (listening_server [Some slow_conn] False)))
   \<and> no_free_slot (connections (server (loop False conn_ops (inbound 7 8) 100
        (listening_server [Some slow_conn] False))))
   \<and> select_nfds (inbound 7 8) > 0
   \<and> socket (listening_server [Some slow_conn] False) \<in> select_readable (inbound 7 8)
   \<and> pendingConnection (listening_server [Some terminated_conn, Some terminated_conn] True)
   \<and> \<not> pendingConnection (server (loop False conn_ops (inbound 7 8) 100
        (listening_server [Some terminated_conn, Some terminated_conn] True)))
   \<and> 1 \<le> admitted (events (loop False conn_ops (inbound 7 8) 100
        (listening_server [Some terminated_conn, Some terminated_conn] True)))
   \<and> stop conn_ops (listening_server [Some slow_conn, None, Some fresh_conn] True)
       = Some ((listening_server [None, None, None] True)\<lparr>socket := - 1, running := False\<rparr>)
   \<and> pendingConnection ((listening_server [None, None, None] True)\<lparr>socket := - 1, running := False\<rparr>)"
proof -
  have p: "\<not> pendingConnection (listening_server [Some slow_conn] False)"
    "pendingConnection (listening_server [Some terminated_conn, Some terminated_conn] True)"
    "pendingConnection (listening_server [Some slow_conn, None, Some fresh_conn] True)"
    by (simp_all add: listening_server_def)
  have q: "\<not> pendingConnection (server (loop False conn_ops (inbound 7 8) 100
        (listening_server [Some terminated_conn, Some terminated_conn] True)))"
    by (simp add: run_defs)
  show ?thesis
    using p q
      pending_gate_raised_and_cleared [of "listening_server [Some slow_conn] False" False conn_ops
        "inbound 7 8" 100]
      pending_gate_raised_and_cleared
        [of "listening_server [Some terminated_conn, Some terminated_conn] True" False conn_ops
          "inbound 7 8" 100]
      pending_gate_raised_and_cleared
        [where s = "listening_server [Some slow_conn, None, Some fresh_conn] True"
          and ops = conn_ops
          and s' = "(listening_server [None, None, None] True)\<lparr>socket := - 1, running := False\<rparr>"]
    by (simp add: loop_full_raises stop_example)
qed

section \<open>The returned time budget\<close>

lemma sint32_uint:
  "sint (w :: 32 word) = (if uint w < 2147483648 then uint w else uint w - 4294967296)"
proof -
  have b: "0 \<le> uint w" "uint w < 4294967296"
    using uint_lt2p [of w] by simp_all
  have "sint w = (uint w + 2147483648) mod 4294967296 - 2147483648"
    by (simp add: sint_uint signed_take_bit_eq_take_bit_shift take_bit_eq_mod)
  also have "\<dots> = (if uint w < 2147483648 then uint w else uint w - 4294967296)"
    using b by (auto simp: mod_pos_pos_trivial) (smt (verit) minus_mod_self2 mod_pos_pos_trivial)
  finally show ?thesis .
qed

lemma uint32_diff:
  "uint (a - b :: 32 word) =
     (if uint b \<le> uint a then uint a - uint b else uint a - uint b + 4294967296)"
  by (simp add: uint_sub_if')

lemma loop_returned:
  "running s \<Longrightarrow>
     returned (loop tpc ops env timeoutMs s) =
       (if millis_start env + timeoutMs - millis_end env > 0x7FFFFFFF then 0
        else millis_start env + timeoutMs - millis_end env)"
  by (simp add: loop_running Let_def)

lemma clamp_nonneg:
  "0 \<le> sint (if (d :: 32 word) > 0x7FFFFFFF then 0 else d)"
proof (cases "d > 0x7FFFFFFF")
  case True
  then show ?thesis by simp
next
  case False
  then have "uint d \<le> 2147483647" by (simp add: word_less_def)
  then have "sint d = uint d" by (simp add: sint32_uint)
  with False show ?thesis by simp
qed

lemma clamp_value:
  assumes t: "0 \<le> sint timeoutMs"
    and e: "uint (nowMs - startMs) \<le> 2147483648 + sint timeoutMs"
  shows "sint (if startMs + timeoutMs - nowMs > 0x7FFFFFFF then 0
               else startMs + timeoutMs - nowMs :: 32 word)
           = max 0 (sint timeoutMs - uint (nowMs - startMs))"
proof -
  let ?e = "nowMs - startMs"
  let ?d = "startMs + timeoutMs - nowMs"
  have d: "?d = timeoutMs - ?e" by simp
  from t have ut: "uint timeoutMs = sint timeoutMs" "uint timeoutMs < 2147483648"
    using uint_lt2p [of timeoutMs] by (auto simp: sint32_uint split: if_splits)
  have gt: "?d > 0x7FFFFFFF \<longleftrightarrow> uint ?d > 2147483647"
    by (simp add: word_less_def)
  show ?thesis
  proof (cases "uint ?e \<le> uint timeoutMs")
    case True
    then have ud: "uint ?d = uint timeoutMs - uint ?e"
      unfolding d by (simp add: uint32_diff)
    have "0 \<le> uint ?e" by simp
    with ud ut have small: "uint ?d < 2147483648" by linarith
    with gt have "(if ?d > 0x7FFFFFFF then 0 else ?d) = ?d"
      by simp
    moreover from small have "sint ?d = uint ?d" by (simp add: sint32_uint)
    ultimately show ?thesis using ud ut True by (simp add: max_def)
  next
    case False
    then have ud: "uint ?d = uint timeoutMs - uint ?e + 4294967296"
      unfolding d by (simp add: uint32_diff)
    with e ut have "uint ?d > 2147483647" by linarith
    with gt have "(if ?d > 0x7FFFFFFF then 0 else ?d) = 0"
      by simp
    then show ?thesis using False ut by (simp add: max_def)
  qed
qed

text \<open>
  Claim C7.  The value returned by \<^verbatim>\<open>loop\<close> is never negative.  On a running server,
  for every budget \<open>timeoutMs \<ge> 0\<close>, with the time that passed during the call read off
  the 32-bit millisecond clock as \<open>millis_end - millis_start\<close> and not exceeding the
  budget by more than \<open>2\<^sup>3\<^sup>1\<close> ms, the returned value is the budget minus the time
  passed, and 0 when that is negative; so it lies between 0 and the budget.
\<close>

theorem loop_returns_remaining_budget:
  "0 \<le> sint (returned (loop tpc ops env timeoutMs s))
   \<and> (running s \<and> 0 \<le> sint timeoutMs
        \<and> uint (millis_end env - millis_start env) \<le> 2147483648 + sint timeoutMs \<longrightarrow>
          sint (returned (loop tpc ops env timeoutMs s))
            = max 0 (sint timeoutMs - uint (millis_end env - millis_start env))
          \<and> sint (returned (loop tpc ops env timeoutMs s)) \<le> sint timeoutMs)"
proof -
  have a: "0 \<le> sint (returned (loop tpc ops env timeoutMs s))"
  proof (cases "running s")
    case True
    then show ?thesis by (simp only: loop_returned clamp_nonneg)
  next
    case False
    then show ?thesis by (simp add: loop_def)
  qed
  have b: "running s \<and> 0 \<le> sint timeoutMs
        \<and> uint (millis_end env - millis_start env) \<le> 2147483648 + sint timeoutMs \<longrightarrow>
          sint (returned (loop tpc ops env timeoutMs s))
            = max 0 (sint timeoutMs - uint (millis_end env - millis_start env))
          \<and> sint (returned (loop tpc ops env timeoutMs s)) \<le> sint timeoutMs"
  proof (intro impI, elim conjE)
    assume r: "running s" and t: "0 \<le> sint timeoutMs"
      and e: "uint (millis_end env - millis_start env) \<le> 2147483648 + sint timeoutMs"
    have v: "sint (returned (loop tpc ops env timeoutMs s))
            = max 0 (sint timeoutMs - uint (millis_end env - millis_start env))"
      using r clamp_value [OF t e] by (simp only: loop_returned)
    have "0 \<le> uint (millis_end env - millis_start env)" by simp
    with v t show "sint (returned (loop tpc ops env timeoutMs s))
            = max 0 (sint timeoutMs - uint (millis_end env - millis_start env))
          \<and> sint (returned (loop tpc ops env timeoutMs s)) \<le> sint timeoutMs"
      by (simp add: max_def)
  qed
  from a b show ?thesis by blast
qed

theorem loop_returns_remaining_budget_witness:
  "running (listening_server [None] False)
   \<and> 0 \<le> sint (100 :: 32 word)
   \<and> uint (millis_end (inbound 7 8) - millis_start (inbound 7 8)) = 10
   \<and> sint (returned (loop False conn_ops (inbound 7 8) 100 (listening_server [None] False))) = 90
   \<and> sint (returned (loop False conn_ops (inbound 7 8) 5 (listening_server [None] False))) = 0"
proof -
  have r: "running (listening_server [None] False)" by (simp add: listening_server_def)
  have e: "uint (millis_end (inbound 7 8) - millis_start (inbound 7 8)) = 10"
    by (simp add: inbound_def)
  show ?thesis
    using r e
      loop_returns_remaining_budget [of False conn_ops "inbound 7 8" 100
        "listening_server [None] False"]
      loop_returns_remaining_budget [of False conn_ops "inbound 7 8" 5
        "listening_server [None] False"]
    by simp
qed

section \<open>Default headers\<close>

lemma map_of_HTTPHeaders_set: "map_of (HTTPHeaders_set (name, val) hs) name = Some val"
proof -
  have "name \<notin> fst ` set (filter (\<lambda>e. fst e \<noteq> name) hs)" by auto
  then have "map_of (filter (\<lambda>e. fst e \<noteq> name) hs) name = None"
    by (simp add: map_of_eq_None_iff)
  then show ?thesis by (simp add: HTTPHeaders_set_def map_add_def)
qed

lemma setDefaultHeader_frame:
  "connections (setDefaultHeader name val s) = connections s
   \<and> defaultHeaders (setDefaultHeader name val s) = defaultHeaders s
   \<and> socket (setDefaultHeader name val s) = socket s
   \<and> headers_store (setDefaultHeader name val s) (defaultHeaders s)
        = HTTPHeaders_set (name, val) (headers_store s (defaultHeaders s))"
  by (simp add: setDefaultHeader_def)

lemma startConnection_slot:
  assumes "0 \<le> idx" "nat idx < length (connections s)"
    "0 \<le> fst (startConnection tpc ops aenv idx s)"
  shows "connections (snd (startConnection tpc ops aenv idx s)) ! nat idx =
     Some ((if tpc then attachTask ops (task_created aenv)
            else acceptConnection ops (accept_result aenv))
             (initialize ops (socket s) (defaultHeaders s) (new_HTTPConnection ops)))"
  using assms
  by (auto simp: startConnection_def createConnection_def startConnectionTask_def Let_def
      split: if_splits)

lemma header_example_eval:
  "connections header_example
     = [Some (fresh_conn\<lparr>c_socket := 7, c_serverSocket := 5, c_defaultHeaders := 64\<rparr>)]
   \<and> headers_store header_example 64 = [(''X'', ''1'')]
   \<and> connections (setDefaultHeader ''Y'' ''2'' header_example) = connections header_example
   \<and> headers_store (setDefaultHeader ''Y'' ''2'' header_example) 64
       = [(''X'', ''1''), (''Y'', ''2'')]"
  by (simp add: header_example_def startConnection_cooperative setDefaultHeader_def
      HTTPHeaders_set_def listening_server_def conn_ops_def fresh_conn_def)

text \<open>
  Claim C8, as amended: a connection admitted after \<^verbatim>\<open>setDefaultHeader(name, val)\<close> is
  initialised with the address of the server's default headers, at which the mapping
  then holds \<open>name \<mapsto> val\<close>; the connection receives this address and no copy, so a
  \<^verbatim>\<open>setDefaultHeader\<close> made after the admission, which leaves every slot as it is,
  changes the mapping at that very address: the default headers that an admitted
  connection was given are at any time the server's current ones.
\<close>

theorem admitted_connection_shares_default_headers:
  "(0 \<le> idx \<and> nat idx < length (connections s)
      \<and> 0 \<le> fst (startConnection tpc ops aenv idx (setDefaultHeader name val s)) \<longrightarrow>
        connections (snd (startConnection tpc ops aenv idx (setDefaultHeader name val s))) ! nat idx
          = Some ((if tpc then attachTask ops (task_created aenv)
                   else acceptConnection ops (accept_result aenv))
                    (initialize ops (socket s) (defaultHeaders s) (new_HTTPConnection ops))))
   \<and> map_of (headers_store (snd (startConnection tpc ops aenv idx (setDefaultHeader name val s)))
        (defaultHeaders s)) name = Some val
   \<and> connections (setDefaultHeader name' val' s') = connections s'
   \<and> defaultHeaders (setDefaultHeader name' val' s') = defaultHeaders s'
   \<and> headers_store (setDefaultHeader name' val' s') (defaultHeaders s')
        = HTTPHeaders_set (name', val') (headers_store s' (defaultHeaders s'))
   \<and> map_of (headers_store (setDefaultHeader name' val' s') (defaultHeaders s')) name' = Some val'"
proof -
  let ?s1 = "setDefaultHeader name val s"
  have f: "connections ?s1 = connections s" "defaultHeaders ?s1 = defaultHeaders s"
    "socket ?s1 = socket s"
    "headers_store ?s1 (defaultHeaders s) = HTTPHeaders_set (name, val) (headers_store s (defaultHeaders s))"
    using setDefaultHeader_frame [of name val s] by simp_all
  have a: "0 \<le> idx \<and> nat idx < length (connections s)
      \<and> 0 \<le> fst (startConnection tpc ops aenv idx ?s1) \<longrightarrow>
        connections (snd (startConnection tpc ops aenv idx ?s1)) ! nat idx
          = Some ((if tpc then attachTask ops (task_created aenv)
                   else acceptConnection ops (accept_result aenv))
                    (initialize ops (socket s) (defaultHeaders s) (new_HTTPConnection ops)))"
    using startConnection_slot [of idx ?s1 tpc ops aenv] f by simp
  have b: "map_of (headers_store (snd (startConnection tpc ops aenv idx ?s1)) (defaultHeaders s)) name
             = Some val"
    using startConnection_frame [of tpc ops aenv idx ?s1] f
    by (simp add: map_of_HTTPHeaders_set)
  have c: "map_of (headers_store (setDefaultHeader name' val' s') (defaultHeaders s')) name' = Some val'"
    using setDefaultHeader_frame [of name' val' s'] by (simp add: map_of_HTTPHeaders_set)
  from a b c setDefaultHeader_frame [of name' val' s'] show ?thesis by blast
qed

theorem admitted_connection_shares_default_headers_witness:
  "(0::int) \<le> 0 \<and> nat 0 < length (connections (listening_server [None :: conn option] False))
   \<and> 0 \<le> fst (startConnection False conn_ops \<lparr>accept_result = 7, task_created = False\<rparr> 0
              (setDefaultHeader ''X'' ''1'' (listening_server [None] False)))
   \<and> connections header_example ! nat 0
       = Some (fresh_conn\<lparr>c_socket := 7, c_serverSocket := 5, c_defaultHeaders := 64\<rparr>)
   \<and> map_of (headers_store header_example 64) ''X'' = Some ''1''"
proof -
  have h: "nat 0 < length (connections (listening_server [None :: conn option] False))"
    "defaultHeaders (listening_server [None] False) = 64"
    "socket (listening_server [None] False) = 5"
    by (simp_all add: listening_server_def)
  have r: "fst (startConnection False conn_ops \<lparr>accept_result = 7, task_created = False\<rparr> 0
              (setDefaultHeader ''X'' ''1'' (listening_server [None] False))) = 7"
    by (simp add: startConnection_cooperative)
  show ?thesis
    using h r
      admitted_connection_shares_default_headers
        [of 0 "listening_server [None] False" False conn_ops
          "\<lparr>accept_result = 7, task_created = False\<rparr>" "''X''" "''1''"]
    by (simp add: header_example_eval header_example_def [symmetric])
qed

text \<open>
  The claim as stated fails: the connection admitted after \<^verbatim>\<open>setDefaultHeader("X", "1")\<close>
  holds the address 64; a later \<^verbatim>\<open>setDefaultHeader("Y", "2")\<close> leaves the slot as it is
  and changes the mapping at that address.
\<close>

theorem default_headers_shared_counterexample:
  "connections header_example
     = [Some (fresh_conn\<lparr>c_socket := 7, c_serverSocket := 5, c_defaultHeaders := 64\<rparr>)]
   \<and> c_defaultHeaders (fresh_conn\<lparr>c_socket := 7, c_serverSocket := 5, c_defaultHeaders := 64\<rparr>) = 64
   \<and> headers_store header_example 64 = [(''X'', ''1'')]
   \<and> connections (setDefaultHeader ''Y'' ''2'' header_example) = connections header_example
   \<and> headers_store (setDefaultHeader ''Y'' ''2'' header_example) 64
       = [(''X'', ''1''), (''Y'', ''2'')]
   \<and> headers_store (setDefaultHeader ''Y'' ''2'' header_example) 64
       \<noteq> headers_store header_example 64"
  by (simp add: header_example_eval)

section \<open>The timeout of the poll\<close>

lemma loop_select_timeouts:
  "running s \<Longrightarrow>
     select_timeouts (events (loop tpc ops env timeoutMs s)) = [mk_timeout timeoutMs]"
  by (simp add: loop_running Let_def select_timeouts_append admitPending_events
      handleListener_events)

lemma sint32_of_int:
  "- 2147483648 \<le> k \<Longrightarrow> k < 2147483648 \<Longrightarrow> sint (word_of_int k :: 32 word) = k"
  by (simp add: sint_sbintrunc' signed_take_bit_int_eq_self)

lemma mk_timeout_sec: "sint (tv_sec (mk_timeout t)) = sint t sdiv 1000"
proof -
  have "- 2147483648 \<le> sint t" "sint t < 2147483648"
    using sint_ge [of t] sint_lt [of t] by simp_all
  then have "- 2147483648 \<le> sint t sdiv 1000" "sint t sdiv 1000 < 2147483648"
    by (auto simp: signed_divide_int_def sgn_if abs_if)
  then show ?thesis by (simp add: mk_timeout_def Let_def sint32_of_int)
qed

lemma mk_timeout_usec:
  assumes "- 2147483648 \<le> (sint t - sint t sdiv 1000) * 1000"
     "(sint t - sint t sdiv 1000) * 1000 < 2147483648"
  shows "sint (tv_usec (mk_timeout t)) = (sint t - sint t sdiv 1000) * 1000"
proof -
  have "(word_of_int ((sint t - sint t sdiv 1000) * 1000) :: 32 word)
          = (word_of_int (sint t) - word_of_int (sint t sdiv 1000)) * 1000"
    by simp
  then have "tv_usec (mk_timeout t) = word_of_int ((sint t - sint t sdiv 1000) * 1000)"
    by (simp add: mk_timeout_def Let_def)
  then show ?thesis using assms by (simp only: sint32_of_int)
qed

lemma timeout_small:
  assumes "- 1000 < sint t" "sint t < 1000"
  shows "timeout_us (mk_timeout t) = sint t * 1000"
proof -
  from assms have "\<bar>sint t\<bar> div 1000 = 0" by simp
  then have q: "sint t sdiv 1000 = 0" by (simp add: signed_divide_int_def)
  with assms have "sint (tv_usec (mk_timeout t)) = sint t * 1000"
    using mk_timeout_usec [of t] by simp
  with q show ?thesis by (simp add: timeout_us_def mk_timeout_sec)
qed

lemma timeout_large:
  assumes "1000 \<le> sint t" "sint t \<le> 2149632"
  shows "timeout_us (mk_timeout t) = sint t * 1000 + 999000 * (sint t div 1000)"
    and "timeout_us (mk_timeout t) > sint t * 1000"
proof -
  from assms have q: "sint t sdiv 1000 = sint t div 1000"
    by (simp add: signed_divide_int_def sgn_if)
  have m: "sint t = 1000 * (sint t div 1000) + sint t mod 1000"
    "0 \<le> sint t mod 1000" "sint t mod 1000 < 1000"
    by simp_all
  from assms m have "1 \<le> sint t div 1000" by linarith
  moreover from assms m have "sint t - sint t div 1000 \<le> 2147483" by linarith
  moreover from assms m have "0 \<le> sint t - sint t div 1000" by linarith
  ultimately have u: "sint (tv_usec (mk_timeout t)) = (sint t - sint t div 1000) * 1000"
    using mk_timeout_usec [of t] q by simp
  from u q show "timeout_us (mk_timeout t) = sint t * 1000 + 999000 * (sint t div 1000)"
    by (simp add: timeout_us_def mk_timeout_sec algebra_simps)
  with \<open>1 \<le> sint t div 1000\<close> show "timeout_us (mk_timeout t) > sint t * 1000" by simp
qed

lemma mk_timeout_overflow:
  "sint (tv_sec (mk_timeout 2149633)) = 2149
   \<and> sint (tv_usec (mk_timeout 2149633)) = - 2147483296
   \<and> timeout_us (mk_timeout 2149633) = 1516704"
  by (simp add: mk_timeout_def Let_def signed_divide_int_def timeout_us_def)

lemma mk_timeout_negative:
  "sint (tv_sec (mk_timeout (- 1500))) = - 1
   \<and> sint (tv_usec (mk_timeout (- 1500))) = - 1499000
   \<and> timeout_us (mk_timeout (- 1500)) = - 2499000"
  by (simp add: mk_timeout_def Let_def signed_divide_int_def timeout_us_def)

text \<open>
  Claim C9, as amended: in every call of \<^verbatim>\<open>loop\<close> on a running server the one timeout
  handed to \<^verbatim>\<open>select\<close> has \<open>tv_sec = timeoutMs / 1000\<close> (C's division) and
  \<open>tv_usec = (timeoutMs - tv_sec) * 1000\<close>, computed in 32 bits.  For every budget with
  \<open>-1000 < timeoutMs < 1000\<close> the timeout equals the budget; for every budget with
  \<open>1000 \<le> timeoutMs \<le> 2149632\<close>, where the product still fits into the 32 bits of
  \<open>tv_usec\<close>, it exceeds the budget, by 999 ms for each full second of the budget; a
  budget of 1500 ms gives 1 s and 1499000 us.
\<close>

theorem loop_poll_timeout:
  "(running s \<longrightarrow>
      select_timeouts (events (loop tpc ops env timeoutMs s)) = [mk_timeout timeoutMs])
   \<and> tv_sec (mk_timeout timeoutMs) = word_of_int (sint timeoutMs sdiv 1000)
   \<and> tv_usec (mk_timeout timeoutMs) = (timeoutMs - tv_sec (mk_timeout timeoutMs)) * 1000
   \<and> (- 1000 < sint timeoutMs \<and> sint timeoutMs < 1000 \<longrightarrow>
        timeout_us (mk_timeout timeoutMs) = sint timeoutMs * 1000)
   \<and> (1000 \<le> sint timeoutMs \<and> sint timeoutMs \<le> 2149632 \<longrightarrow>
        timeout_us (mk_timeout timeoutMs)
          = sint timeoutMs * 1000 + 999000 * (sint timeoutMs div 1000)
        \<and> timeout_us (mk_timeout timeoutMs) > sint timeoutMs * 1000)
   \<and> mk_timeout 1500 = \<lparr>tv_sec = 1, tv_usec = 1499000\<rparr>"
proof -
  have "tv_sec (mk_timeout timeoutMs) = word_of_int (sint timeoutMs sdiv 1000)"
    "tv_usec (mk_timeout timeoutMs) = (timeoutMs - tv_sec (mk_timeout timeoutMs)) * 1000"
    by (simp_all add: mk_timeout_def Let_def)
  moreover have "mk_timeout 1500 = \<lparr>tv_sec = 1, tv_usec = 1499000\<rparr>"
    by (simp add: mk_timeout_def Let_def signed_divide_int_def)
  ultimately show ?thesis
    using loop_select_timeouts [of s tpc ops env timeoutMs]
      timeout_small [of timeoutMs] timeout_large [of timeoutMs]
    by blast
qed

theorem loop_poll_timeout_witness:
  "running (listening_server [None] False)
   \<and> select_timeouts (events (loop False conn_ops (inbound 7 8) 500 (listening_server [None] False)))
       = [mk_timeout 500]
   \<and> - 1000 < sint (500 :: 32 word) \<and> sint (500 :: 32 word) < 1000
   \<and> timeout_us (mk_timeout 500) = 500000
   \<and> 1000 \<le> sint (1500 :: 32 word) \<and> sint (1500 :: 32 word) \<le> 2149632
   \<and> timeout_us (mk_timeout 1500) = 2499000"
proof -
  have r: "running (listening_server [None] False)" by (simp add: listening_server_def)
  show ?thesis
    using r
      loop_poll_timeout [of "listening_server [None] False" False conn_ops "inbound 7 8" 500]
      loop_poll_timeout [of "listening_server [None] False" False conn_ops "inbound 7 8" 1500]
    by (simp add: timeout_us_def)
qed

text \<open>
  The claim as stated fails for a budget of 2149633 ms: the product 2147484 * 1000 does
  not fit into \<^verbatim>\<open>tv_usec\<close>, which becomes negative, and the timeout is below the budget.
\<close>

theorem poll_timeout_overflow_counterexample:
  "1000 \<le> sint (2149633 :: 32 word)
   \<and> select_timeouts (events (loop False conn_ops (inbound 7 8) 2149633
        (listening_server [None] False))) = [mk_timeout 2149633]
   \<and> sint (tv_sec (mk_timeout 2149633)) = 2149
   \<and> sint (tv_usec (mk_timeout 2149633)) = - 2147483296
   \<and> timeout_us (mk_timeout 2149633) = 1516704
   \<and> \<not> timeout_us (mk_timeout 2149633) > sint (2149633 :: 32 word) * 1000"
proof -
  have "running (listening_server [None] False)" by (simp add: listening_server_def)
  then have "select_timeouts (events (loop False conn_ops (inbound 7 8) 2149633
        (listening_server [None] False))) = [mk_timeout 2149633]"
    by (rule loop_select_timeouts)
  then show ?thesis by (simp add: mk_timeout_overflow)
qed

end
